theory Spec2Isabelle
  imports Complex_Main "HOL-Library.AList"
begin

section \<open>Data model\<close>

text \<open>
  The analysis scripts work on Python dictionaries produced by the run and qrels parsers.
  A dictionary is an association list in insertion order; a real dictionary has pairwise
  distinct keys, which theorems assume where they need it (\<open>distinct (map fst d)\<close>).
  Identifiers are strings, relevance grades are Python integers, scores are floats read
  from a run file; only their order is used, so they are modelled as reals (no NaN).
\<close>

type_synonym ('k, 'v) dict = "('k \<times> 'v) list"
type_synonym ranked = "(string, real) dict"
type_synonym ranking = "(string, ranked) dict"
type_synonym judgments = "(string, int) dict"
type_synonym qrels = "(string, judgments) dict"

datatype log_record = INFO string | WARNING string

datatype error = IndexError | TypeError | AttributeError | ZeroDivisionError | StatisticsError

text \<open>\<open>d.get(k, dflt)\<close>\<close>

definition dict_get :: "('k, 'v) dict \<Rightarrow> 'k \<Rightarrow> 'v \<Rightarrow> 'v" where
  "dict_get d k dflt = (case map_of d k of None \<Rightarrow> dflt | Some v \<Rightarrow> v)"

text \<open>
  \<open>sorted(xs, key=key, reverse=True)\<close>: a stable sort in descending key order. CPython
  reverses the list, sorts it stably in ascending order and reverses the result, so equal
  keys keep their original relative order.
\<close>

definition sorted_reverse :: "('a \<Rightarrow> 'b::linorder) \<Rightarrow> 'a list \<Rightarrow> 'a list" where
  "sorted_reverse key xs = rev (sort_key key (rev xs))"

text \<open>\<open>log_stat(title, value)\<close> of utils.py: the title and a colon, padded to 40 columns.\<close>

definition ljust :: "nat \<Rightarrow> string \<Rightarrow> string" where
  "ljust n s = s @ replicate (n - length s) CHR '' ''"

definition log_stat :: "string \<Rightarrow> string \<Rightarrow> log_record" where
  "log_stat title v = INFO ('' - '' @ ljust 40 (title @ '':'') @ '' '' @ v)"

section \<open>Python helpers\<close>

text \<open>Stopping at the first raised exception: a loop whose body can fail.\<close>

fun fold_err :: "('a \<Rightarrow> 's \<Rightarrow> error + 's) \<Rightarrow> 'a list \<Rightarrow> 's \<Rightarrow> error + 's" where
  "fold_err f [] s = Inr s"
| "fold_err f (x # xs) s = (case f x s of Inl e \<Rightarrow> Inl e | Inr s' \<Rightarrow> fold_err f xs s')"


text \<open>\<open>xs[i]\<close> for a non-negative index.\<close>

definition list_index :: "'a list \<Rightarrow> nat \<Rightarrow> error + 'a" where
  "list_index xs i = (if i < length xs then Inr (xs ! i) else Inl IndexError)"

text \<open>\<open>s.split(sep)\<close> with a one-character separator: empty fields are kept.\<close>

fun split_sep :: "char \<Rightarrow> string \<Rightarrow> string list" where
  "split_sep sep [] = [[]]"
| "split_sep sep (c # cs) =
     (if c = sep then [] # split_sep sep cs
      else (case split_sep sep cs of [] \<Rightarrow> [[c]] | p # ps \<Rightarrow> (c # p) # ps))"

text \<open>\<open>str(n)\<close> for integers: decimal digits, with a minus sign for negative numbers.\<close>

definition digit_char :: "nat \<Rightarrow> char" where
  "digit_char d = ''0123456789'' ! d"

function str_nat :: "nat \<Rightarrow> string" where
  "str_nat n = (if n < 10 then [digit_char n] else str_nat (n div 10) @ [digit_char (n mod 10)])"
  by pat_completeness auto
termination
  by (relation "measure id") auto

definition str_int :: "int \<Rightarrow> string" where
  "str_int i = (if i < 0 then CHR ''-'' # str_nat (nat (- i)) else str_nat (nat i))"

text \<open>
  \<open>itertools.groupby(xs, key)\<close>: maximal runs of consecutive elements with the same key,
  each with its key. A key that comes back later starts a new group.
\<close>

function groupby :: "('a \<Rightarrow> 'k) \<Rightarrow> 'a list \<Rightarrow> ('k \<times> 'a list) list" where
  "groupby key [] = []"
| "groupby key (x # xs) =
     (key x, x # takeWhile (\<lambda>y. key y = key x) xs)
       # groupby key (dropWhile (\<lambda>y. key y = key x) xs)"
  by pat_completeness auto
termination
  by (relation "measure (\<lambda>(key, xs). length xs)") (auto simp: length_dropWhile_le less_Suc_eq_le)

text \<open>\<open>{k: v for k in ks}\<close> and \<open>d.update(other)\<close>.\<close>

definition dict_from_keys :: "'k list \<Rightarrow> 'v \<Rightarrow> ('k, 'v) dict" where
  "dict_from_keys ks v = fold (\<lambda>k d. AList.update k v d) ks []"

definition dict_update :: "('k, 'v) dict \<Rightarrow> ('k, 'v) dict \<Rightarrow> ('k, 'v) dict" where
  "dict_update d other = fold (\<lambda>(k, v) d. AList.update k v d) other d"

section \<open>Document balancing (analyze\_doc\_balancing.py)\<close>

text \<open>The locals of the loop body of \<open>get_balanced_ranking\<close>, for one topic.\<close>

definition sorted_ids :: "ranked \<Rightarrow> string list" where
  "sorted_ids docs = sorted_reverse (\<lambda>x. the (map_of docs x)) (map fst docs)"

definition pos_docs :: "ranked \<Rightarrow> judgments \<Rightarrow> string list" where
  "pos_docs docs topic_qrels = filter (\<lambda>d. dict_get topic_qrels d 0 \<ge> 1) (sorted_ids docs)"

definition neg_docs :: "ranked \<Rightarrow> judgments \<Rightarrow> string list" where
  "neg_docs docs topic_qrels = filter (\<lambda>d. dict_get topic_qrels d 0 = 0) (sorted_ids docs)"

definition balance_k :: "ranked \<Rightarrow> judgments \<Rightarrow> nat" where
  "balance_k docs topic_qrels =
     min (length (pos_docs docs topic_qrels)) (length (neg_docs docs topic_qrels))"

definition balanced_ids :: "ranked \<Rightarrow> judgments \<Rightarrow> string set" where
  "balanced_ids docs topic_qrels =
     set (take (balance_k docs topic_qrels) (pos_docs docs topic_qrels)
          @ take (balance_k docs topic_qrels) (neg_docs docs topic_qrels))"

definition balanced_docs :: "ranked \<Rightarrow> judgments \<Rightarrow> ranked" where
  "balanced_docs docs topic_qrels =
     filter (\<lambda>(doc_id, score). doc_id \<in> balanced_ids docs topic_qrels) docs"

definition skipped_stat :: "string \<Rightarrow> log_record" where
  "skipped_stat topic =
     log_stat (''Query '' @ topic) ''Skipped (missing positive or negative documents)''"

definition skipped_warning :: "string \<Rightarrow> log_record" where
  "skipped_warning topic =
     WARNING (''Could not balance query #'' @ topic
              @ '': missing positive or negative documents, skipped.'')"

text \<open>
  One iteration of the loop over \<open>ranking.items()\<close>. The state is the result dictionary
  built so far and the log written so far.
\<close>

definition balance_step ::
  "qrels \<Rightarrow> string \<times> ranked \<Rightarrow> ranking \<times> log_record list \<Rightarrow> ranking \<times> log_record list" where
  "balance_step qrels item st =
     (case item of (topic, docs) \<Rightarrow>
        let topic_qrels = dict_get qrels topic [] in
        if balance_k docs topic_qrels > 0
        then (AList.update topic (balanced_docs docs topic_qrels) (fst st), snd st)
        else (fst st, snd st @ [skipped_stat topic, skipped_warning topic]))"

definition get_balanced_ranking :: "ranking \<Rightarrow> qrels \<Rightarrow> ranking \<times> log_record list" where
  "get_balanced_ranking ranking qrels = fold (balance_step qrels) ranking ([], [])"

section \<open>Entity qrels balancing and overlap filtering (analyze\_dreq\_filtering.py)\<close>

text \<open>
  \<open>collect_filtered_eqrels\<close>, from the parsed entity qrels. The source reads them from a
  file with the qrels parser and logs three counts after the loop; the returned dictionary
  is the one built by the loop.
\<close>

definition eqrels_pos :: "judgments \<Rightarrow> string list" where
  "eqrels_pos ents = map fst (filter (\<lambda>(ent_id, score). score \<ge> 1) ents)"

definition eqrels_neg :: "judgments \<Rightarrow> string list" where
  "eqrels_neg ents = map fst (filter (\<lambda>(ent_id, score). score = 0) ents)"

definition eqrels_k :: "judgments \<Rightarrow> nat" where
  "eqrels_k ents = min (length (eqrels_pos ents)) (length (eqrels_neg ents))"

definition eqrels_balanced :: "judgments \<Rightarrow> judgments" where
  "eqrels_balanced ents =
     dict_update (dict_from_keys (take (eqrels_k ents) (eqrels_pos ents)) 1)
                 (dict_from_keys (take (eqrels_k ents) (eqrels_neg ents)) 0)"

definition eqrels_step :: "string \<times> judgments \<Rightarrow> qrels \<Rightarrow> qrels" where
  "eqrels_step item filtered_eqrels =
     (case item of (qid, ents) \<Rightarrow>
        if eqrels_k ents > 0 then AList.update qid (eqrels_balanced ents) filtered_eqrels
        else filtered_eqrels)"

definition collect_filtered_eqrels :: "qrels \<Rightarrow> qrels" where
  "collect_filtered_eqrels eqrels_dict = fold eqrels_step eqrels_dict []"

text \<open>
  \<open>filter_ranking\<close>, from the lines of the initial ranking file (each line as the file
  iterator yields it). The result is the list of lines written to the output file and the
  number of documents scanned.
\<close>

type_synonym doc_links = "string \<rightharpoonup> string set"

definition line_qid :: "string \<Rightarrow> string" where
  "line_qid x = (case split_sep CHR '' '' x of [] \<Rightarrow> [] | p # ps \<Rightarrow> p)"

definition scored_ents_of :: "qrels \<Rightarrow> string \<Rightarrow> string set" where
  "scored_ents_of ent_qrels qid =
     (case map_of ent_qrels qid of None \<Rightarrow> {} | Some ents \<Rightarrow> set (map fst ents))"

definition linked_ents_of :: "doc_links \<Rightarrow> string \<Rightarrow> string set" where
  "linked_ents_of doc_ents doc_id = (case doc_ents doc_id of None \<Rightarrow> {} | Some es \<Rightarrow> es)"

definition out_line :: "string \<Rightarrow> string \<Rightarrow> string \<Rightarrow> nat \<Rightarrow> string \<Rightarrow> string" where
  "out_line qid p1 doc_id rank p4 =
     qid @ '' '' @ p1 @ '' '' @ doc_id @ '' '' @ str_nat rank @ '' '' @ p4
       @ '' Entity-Filtered'' @ [CHR 0x0A]"

text \<open>The body of the inner loop; the state is (rank, doc\_count, lines written).\<close>

definition filter_line ::
  "string set \<Rightarrow> doc_links \<Rightarrow> string \<Rightarrow> string \<Rightarrow> nat \<times> nat \<times> string list
     \<Rightarrow> error + nat \<times> nat \<times> string list" where
  "filter_line scored_ents doc_ents qid line st =
     (case st of (rank, doc_count, written) \<Rightarrow>
        let parts = split_sep CHR '' '' line in
        case list_index parts 2 of Inl e \<Rightarrow> Inl e
        | Inr doc_id \<Rightarrow>
            let linked_ents = linked_ents_of doc_ents doc_id;
                overlap = scored_ents \<inter> linked_ents
            in if card overlap > 0
               then (case list_index parts 1 of Inl e \<Rightarrow> Inl e
                     | Inr p1 \<Rightarrow>
                        (case list_index parts 4 of Inl e \<Rightarrow> Inl e
                         | Inr p4 \<Rightarrow>
                            Inr (rank + 1, doc_count + 1,
                                 written @ [out_line qid p1 doc_id rank p4])))
               else Inr (rank, doc_count + 1, written))"

text \<open>One group of \<open>groupby\<close>; the state is (doc\_count, lines written).\<close>

definition filter_group ::
  "qrels \<Rightarrow> doc_links \<Rightarrow> string \<times> string list \<Rightarrow> nat \<times> string list
     \<Rightarrow> error + nat \<times> string list" where
  "filter_group ent_qrels doc_ents item st =
     (case item of (qid, group_lines) \<Rightarrow>
        case fold_err (filter_line (scored_ents_of ent_qrels qid) doc_ents qid) group_lines
               (1, fst st, snd st) of
          Inl e \<Rightarrow> Inl e
        | Inr (rank, doc_count, written) \<Rightarrow> Inr (doc_count, written))"

definition filter_ranking :: "qrels \<Rightarrow> string list \<Rightarrow> doc_links \<Rightarrow> error + nat \<times> string list" where
  "filter_ranking ent_qrels f_initial doc_ents =
     fold_err (filter_group ent_qrels doc_ents) (groupby line_qid f_initial) (0, [])"






section \<open>Entity classification (analyze\_shared\_entities.py)\<close>

record entity_classes =
  shared :: "string set"
  positive :: "string set"
  negative :: "string set"

text \<open>
  The body of the loop over the judgments of one topic; the state is (pos\_entities,
  neg\_entities, log). \<open>links.get(doc_id)\<close> is \<open>None\<close> for a document without an entry,
  and \<open>set.update(None)\<close> raises a TypeError.
\<close>

definition classify_judgment ::
  "doc_links \<Rightarrow> string \<times> int \<Rightarrow> string set \<times> string set \<times> log_record list
     \<Rightarrow> error + string set \<times> string set \<times> log_record list" where
  "classify_judgment links item st =
     (case item of (doc_id, rel) \<Rightarrow>
      case st of (pos_entities, neg_entities, lg) \<Rightarrow>
        if rel \<ge> 1
        then (case links doc_id of None \<Rightarrow> Inl TypeError
              | Some es \<Rightarrow> Inr (pos_entities \<union> es, neg_entities, lg))
        else if rel < 1
        then (case links doc_id of None \<Rightarrow> Inl TypeError
              | Some es \<Rightarrow> Inr (pos_entities, neg_entities \<union> es, lg))
        else Inr (pos_entities, neg_entities,
                  lg @ [WARNING (''Invalid relevance value found: '' @ str_int rel)]))"

definition classify_topic ::
  "doc_links \<Rightarrow> string \<times> judgments \<Rightarrow> (string, entity_classes) dict \<times> log_record list
     \<Rightarrow> error + (string, entity_classes) dict \<times> log_record list" where
  "classify_topic links item st =
     (case item of (topic, doc_rels) \<Rightarrow>
        case fold_err (classify_judgment links) doc_rels ({}, {}, snd st) of
          Inl e \<Rightarrow> Inl e
        | Inr (pos_entities, neg_entities, lg) \<Rightarrow>
            let shared = pos_entities \<inter> neg_entities;
                pos_entities = pos_entities - shared;
                neg_entities = neg_entities - shared
            in Inr (AList.update topic
                      \<lparr> shared = shared, positive = pos_entities, negative = neg_entities \<rparr>
                      (fst st), lg))"

definition get_classified_entities ::
  "qrels \<Rightarrow> doc_links \<Rightarrow> error + (string, entity_classes) dict \<times> log_record list" where
  "get_classified_entities qrels links = fold_err (classify_topic links) qrels ([], [])"

section \<open>Definitions used in the statements and proofs\<close>

text \<open>What one topic contributes to the result and to the log.\<close>

definition balance_entry :: "qrels \<Rightarrow> string \<times> ranked \<Rightarrow> (string \<times> ranked) option" where
  "balance_entry qrels item =
     (if balance_k (snd item) (dict_get qrels (fst item) []) > 0
      then Some (fst item, balanced_docs (snd item) (dict_get qrels (fst item) []))
      else None)"

definition balance_log :: "qrels \<Rightarrow> string \<times> ranked \<Rightarrow> log_record list" where
  "balance_log qrels item =
     (if balance_k (snd item) (dict_get qrels (fst item) []) > 0 then []
      else [skipped_stat (fst item), skipped_warning (fst item)])"

text \<open>
  A topic whose candidates are already balanced: every candidate is in one of the two
  classes of the balancer, and the two classes have the same, non-zero size.
\<close>

definition already_balanced :: "ranked \<Rightarrow> judgments \<Rightarrow> bool" where
  "already_balanced docs topic_qrels \<longleftrightarrow>
     list_all (\<lambda>d. dict_get topic_qrels d 0 \<ge> 1 \<or> dict_get topic_qrels d 0 = 0) (map fst docs)
     \<and> length (pos_docs docs topic_qrels) = length (neg_docs docs topic_qrels)
     \<and> length (pos_docs docs topic_qrels) > 0"

text \<open>
  Entity unions over the documents of one topic. \<open>pos_doc_entities\<close> is the union over the
  positive documents (grade at least 1) and \<open>zero_doc_entities\<close> the union over the negative
  documents (grade 0). \<open>nonpos_doc_entities\<close> is what the loop of the source accumulates in
  \<open>neg_entities\<close>: the union over every document its second branch takes (grade below 1,
  negative grades included); \<open>classes_of\<close> is the entry the source derives from its two
  accumulators.
\<close>

definition pos_doc_entities :: "doc_links \<Rightarrow> judgments \<Rightarrow> string set" where
  "pos_doc_entities links doc_rels =
     \<Union> (set (map (\<lambda>(doc_id, rel). linked_ents_of links doc_id)
                 (filter (\<lambda>(doc_id, rel). rel \<ge> 1) doc_rels)))"

definition nonpos_doc_entities :: "doc_links \<Rightarrow> judgments \<Rightarrow> string set" where
  "nonpos_doc_entities links doc_rels =
     \<Union> (set (map (\<lambda>(doc_id, rel). linked_ents_of links doc_id)
                 (filter (\<lambda>(doc_id, rel). rel < 1) doc_rels)))"

definition zero_doc_entities :: "doc_links \<Rightarrow> judgments \<Rightarrow> string set" where
  "zero_doc_entities links doc_rels =
     \<Union> (set (map (\<lambda>(doc_id, rel). linked_ents_of links doc_id)
                 (filter (\<lambda>(doc_id, rel). rel = 0) doc_rels)))"

definition classes_of :: "doc_links \<Rightarrow> judgments \<Rightarrow> entity_classes" where
  "classes_of links doc_rels =
     \<lparr> shared = pos_doc_entities links doc_rels \<inter> nonpos_doc_entities links doc_rels,
       positive = pos_doc_entities links doc_rels
                    - pos_doc_entities links doc_rels \<inter> nonpos_doc_entities links doc_rels,
       negative = nonpos_doc_entities links doc_rels
                    - pos_doc_entities links doc_rels \<inter> nonpos_doc_entities links doc_rels \<rparr>"

definition all_linked :: "doc_links \<Rightarrow> judgments \<Rightarrow> bool" where
  "all_linked links doc_rels = list_all (\<lambda>(doc_id, rel). links doc_id \<noteq> None) doc_rels"


text \<open>
  For the statements on \<open>filter_ranking\<close>: a line with at least the five fields the source
  reads, a field of a line, the retention test, and the lines written for one group
  (retained lines in their order, ranked 1, 2, ... in that order).
\<close>

definition well_formed_line :: "string \<Rightarrow> bool" where
  "well_formed_line line \<longleftrightarrow> length (split_sep CHR '' '' line) \<ge> 5"

definition line_field :: "string \<Rightarrow> nat \<Rightarrow> string" where
  "line_field line i = split_sep CHR '' '' line ! i"

definition retained :: "string set \<Rightarrow> doc_links \<Rightarrow> string \<Rightarrow> bool" where
  "retained scored_ents doc_ents line \<longleftrightarrow>
     scored_ents \<inter> linked_ents_of doc_ents (line_field line 2) \<noteq> {}"

definition filtered_group :: "qrels \<Rightarrow> doc_links \<Rightarrow> string \<times> string list \<Rightarrow> string list" where
  "filtered_group ent_qrels doc_ents item =
     (case item of (qid, group_lines) \<Rightarrow>
        map (\<lambda>(rank, line).
               out_line qid (line_field line 1) (line_field line 2) rank (line_field line 4))
            (enumerate 1 (filter (retained (scored_ents_of ent_qrels qid) doc_ents) group_lines)))"

section \<open>Helper lemmas on dictionaries\<close>

lemmas bal_defs = sorted_ids_def sorted_reverse_def pos_docs_def neg_docs_def balance_k_def
  balanced_ids_def balanced_docs_def dict_get_def

lemma update_fresh: "k \<notin> fst ` set al \<Longrightarrow> AList.update k v al = al @ [(k, v)]"
  by (induction al) auto

section \<open>Helper lemmas on the balancer\<close>

lemma fold_balance_step_log:
  "snd (fold (balance_step qrels) ranking st) = snd st @ concat (map (balance_log qrels) ranking)"
  by (induction ranking arbitrary: st)
     (auto simp: balance_step_def balance_log_def Let_def split: prod.splits)

lemma fold_balance_step_result:
  "distinct (map fst ranking) \<Longrightarrow> fst ` set (fst st) \<inter> fst ` set ranking = {} \<Longrightarrow>
   fst (fold (balance_step qrels) ranking st)
     = fst st @ List.map_filter (balance_entry qrels) ranking"
proof (induction ranking arbitrary: st)
  case Nil
  then show ?case by simp
next
  case (Cons item ranking)
  obtain topic docs where item: "item = (topic, docs)" by (cases item)
  let ?st' = "balance_step qrels item st"
  have fresh: "topic \<notin> fst ` set (fst st)"
    using Cons.prems(2) item by auto
  have keys: "fst ` set (fst ?st') \<subseteq> insert topic (fst ` set (fst st))"
    by (auto simp: balance_step_def item Let_def AList.dom_update)
  have "topic \<notin> fst ` set ranking"
    using Cons.prems(1) item by auto
  moreover have "fst ` set (fst st) \<inter> fst ` set ranking = {}"
    using Cons.prems(2) by auto
  ultimately have disj: "fst ` set (fst ?st') \<inter> fst ` set ranking = {}"
    using keys by blast
  have step: "fst ?st' = fst st @ (case balance_entry qrels item of None \<Rightarrow> [] | Some e \<Rightarrow> [e])"
    using fresh by (simp add: balance_step_def balance_entry_def item Let_def update_fresh)
  have "fst (fold (balance_step qrels) (item # ranking) st)
          = fst ?st' @ List.map_filter (balance_entry qrels) ranking"
    using Cons.IH[of ?st'] Cons.prems(1) disj by simp
  then show ?case
    by (simp add: step split: option.splits)
qed

lemma get_balanced_ranking_result:
  "distinct (map fst ranking) \<Longrightarrow>
   fst (get_balanced_ranking ranking qrels) = List.map_filter (balance_entry qrels) ranking"
  by (simp add: get_balanced_ranking_def fold_balance_step_result)

lemma get_balanced_ranking_log:
  "snd (get_balanced_ranking ranking qrels) = concat (map (balance_log qrels) ranking)"
  by (simp add: get_balanced_ranking_def fold_balance_step_log)

lemma map_filter_balance_entry_keys:
  "fst ` set (List.map_filter (balance_entry qrels) ranking) \<subseteq> fst ` set ranking"
  by (induction ranking) (auto simp: balance_entry_def split: if_splits)

lemma map_of_map_filter_balance_entry:
  "distinct (map fst ranking) \<Longrightarrow> map_of ranking topic = Some docs \<Longrightarrow>
   map_of (List.map_filter (balance_entry qrels) ranking) topic
     = map_option snd (balance_entry qrels (topic, docs))"
proof (induction ranking)
  case Nil
  then show ?case by simp
next
  case (Cons item ranking)
  show ?case
  proof (cases "fst item = topic")
    case True
    then have item: "item = (topic, docs)" using Cons.prems(2) by (cases item) auto
    have "topic \<notin> fst ` set ranking" using Cons.prems(1) item by auto
    then have "map_of (List.map_filter (balance_entry qrels) ranking) topic = None"
      using map_filter_balance_entry_keys[of qrels ranking]
      by (auto simp: map_of_eq_None_iff)
    moreover have "balance_entry qrels (topic, docs) = None
        \<or> (\<exists>v. balance_entry qrels (topic, docs) = Some (topic, v))"
      by (simp add: balance_entry_def)
    ultimately show ?thesis
      by (auto simp: item)
  next
    case False
    then have "map_of ranking topic = Some docs" using Cons.prems(2) by (cases item) auto
    then have IH: "map_of (List.map_filter (balance_entry qrels) ranking) topic
                     = map_option snd (balance_entry qrels (topic, docs))"
      using Cons.IH Cons.prems(1) by simp
    show ?thesis
    proof (cases "balance_entry qrels item")
      case None
      then show ?thesis by (simp add: IH)
    next
      case (Some e)
      then have "fst e \<noteq> topic"
        using False by (auto simp: balance_entry_def split: if_splits)
      then show ?thesis
        using Some by (cases e) (simp add: IH)
    qed
  qed
qed

lemma get_balanced_ranking_lookup:
  "distinct (map fst ranking) \<Longrightarrow> map_of ranking topic = Some docs \<Longrightarrow>
   map_of (fst (get_balanced_ranking ranking qrels)) topic
     = (if balance_k docs (dict_get qrels topic []) > 0
        then Some (balanced_docs docs (dict_get qrels topic [])) else None)"
  by (simp add: get_balanced_ranking_result map_of_map_filter_balance_entry balance_entry_def)

lemma set_sorted_ids: "set (sorted_ids docs) = fst ` set docs"
  by (simp add: sorted_ids_def sorted_reverse_def)

lemma distinct_sorted_ids: "distinct (map fst docs) \<Longrightarrow> distinct (sorted_ids docs)"
  by (simp add: sorted_ids_def sorted_reverse_def)

lemma balance_k_le:
  "balance_k docs tq \<le> length (pos_docs docs tq)" "balance_k docs tq \<le> length (neg_docs docs tq)"
  by (simp_all add: balance_k_def)

lemma balanced_ids_subset: "balanced_ids docs tq \<subseteq> fst ` set docs"
proof -
  have "set (take n (pos_docs docs tq)) \<subseteq> fst ` set docs" for n
    using set_take_subset[of n "pos_docs docs tq"] by (auto simp: pos_docs_def set_sorted_ids)
  moreover have "set (take n (neg_docs docs tq)) \<subseteq> fst ` set docs" for n
    using set_take_subset[of n "neg_docs docs tq"] by (auto simp: neg_docs_def set_sorted_ids)
  ultimately show ?thesis by (simp add: balanced_ids_def)
qed

lemma keys_balanced_docs: "fst ` set (balanced_docs docs tq) = balanced_ids docs tq"
  using balanced_ids_subset[of docs tq] by (force simp: balanced_docs_def)

lemma take_pos_grade: "d \<in> set (take n (pos_docs docs tq)) \<Longrightarrow> dict_get tq d 0 \<ge> 1"
  by (auto simp: pos_docs_def dest: in_set_takeD)

lemma take_neg_grade: "d \<in> set (take n (neg_docs docs tq)) \<Longrightarrow> dict_get tq d 0 = 0"
  by (auto simp: neg_docs_def dest: in_set_takeD)

lemma balanced_ids_pos:
  "{d \<in> balanced_ids docs tq. dict_get tq d 0 \<ge> 1} = set (take (balance_k docs tq) (pos_docs docs tq))"
  by (auto simp: balanced_ids_def dest: take_pos_grade take_neg_grade)

lemma balanced_ids_neg:
  "{d \<in> balanced_ids docs tq. dict_get tq d 0 = 0} = set (take (balance_k docs tq) (neg_docs docs tq))"
  by (auto simp: balanced_ids_def dest: take_pos_grade take_neg_grade)

lemma card_take_pos:
  assumes "distinct (map fst docs)"
  shows "card (set (take (balance_k docs tq) (pos_docs docs tq))) = balance_k docs tq"
proof -
  have "distinct (take (balance_k docs tq) (pos_docs docs tq))"
    using assms by (simp add: pos_docs_def distinct_sorted_ids)
  then show ?thesis
    using balance_k_le(1)[of docs tq] by (simp add: distinct_card)
qed

lemma card_take_neg:
  assumes "distinct (map fst docs)"
  shows "card (set (take (balance_k docs tq) (neg_docs docs tq))) = balance_k docs tq"
proof -
  have "distinct (take (balance_k docs tq) (neg_docs docs tq))"
    using assms by (simp add: neg_docs_def distinct_sorted_ids)
  then show ?thesis
    using balance_k_le(2)[of docs tq] by (simp add: distinct_card)
qed

lemma distinct_balanced_docs:
  "distinct (map fst docs) \<Longrightarrow> distinct (map fst (balanced_docs docs tq))"
  by (simp add: balanced_docs_def distinct_map_filter)

lemma length_filter_keys:
  assumes "distinct (map fst docs)"
  shows "length (filter (\<lambda>(d, s). P d) docs) = card {d \<in> fst ` set docs. P d}"
proof -
  have "length (filter (\<lambda>(d, s). P d) docs) = length (filter P (map fst docs))"
    by (simp add: filter_map comp_def case_prod_unfold)
  also have "\<dots> = card ({d. P d} \<inter> set (map fst docs))"
    using assms by (rule distinct_length_filter)
  also have "{d. P d} \<inter> set (map fst docs) = {d \<in> fst ` set docs. P d}"
    by auto
  finally show ?thesis .
qed

lemma balanced_docs_pos_count:
  assumes "distinct (map fst docs)"
  shows "length (filter (\<lambda>(d, s). dict_get tq d 0 \<ge> 1) (balanced_docs docs tq)) = balance_k docs tq"
  using length_filter_keys[OF distinct_balanced_docs[OF assms], of "\<lambda>d. dict_get tq d 0 \<ge> 1" tq]
  by (simp add: keys_balanced_docs balanced_ids_pos card_take_pos[OF assms])

lemma balanced_docs_neg_count:
  assumes "distinct (map fst docs)"
  shows "length (filter (\<lambda>(d, s). dict_get tq d 0 = 0) (balanced_docs docs tq)) = balance_k docs tq"
  using length_filter_keys[OF distinct_balanced_docs[OF assms], of "\<lambda>d. dict_get tq d 0 = 0" tq]
  by (simp add: keys_balanced_docs balanced_ids_neg card_take_neg[OF assms])

lemma length_pos_docs:
  assumes "distinct (map fst docs)"
  shows "length (pos_docs docs tq) = card {d \<in> fst ` set docs. dict_get tq d 0 \<ge> 1}"
proof -
  have "length (pos_docs docs tq) = card ({d. dict_get tq d 0 \<ge> 1} \<inter> set (sorted_ids docs))"
    unfolding pos_docs_def using distinct_sorted_ids[OF assms] by (rule distinct_length_filter)
  also have "{d. dict_get tq d 0 \<ge> 1} \<inter> set (sorted_ids docs) = {d \<in> fst ` set docs. dict_get tq d 0 \<ge> 1}"
    by (auto simp: set_sorted_ids)
  finally show ?thesis .
qed

lemma length_neg_docs:
  assumes "distinct (map fst docs)"
  shows "length (neg_docs docs tq) = card {d \<in> fst ` set docs. dict_get tq d 0 = 0}"
proof -
  have "length (neg_docs docs tq) = card ({d. dict_get tq d 0 = 0} \<inter> set (sorted_ids docs))"
    unfolding neg_docs_def using distinct_sorted_ids[OF assms] by (rule distinct_length_filter)
  also have "{d. dict_get tq d 0 = 0} \<inter> set (sorted_ids docs) = {d \<in> fst ` set docs. dict_get tq d 0 = 0}"
    by (auto simp: set_sorted_ids)
  finally show ?thesis .
qed

lemma balanced_docs_already_balanced:
  assumes "distinct (map fst docs)" and "balance_k docs tq > 0"
  shows "already_balanced (balanced_docs docs tq) tq"
proof -
  let ?out = "balanced_docs docs tq"
  have d: "distinct (map fst ?out)" by (rule distinct_balanced_docs[OF assms(1)])
  have p: "length (pos_docs ?out tq) = balance_k docs tq"
    by (simp add: length_pos_docs[OF d] keys_balanced_docs balanced_ids_pos card_take_pos[OF assms(1)])
  have n: "length (neg_docs ?out tq) = balance_k docs tq"
    by (simp add: length_neg_docs[OF d] keys_balanced_docs balanced_ids_neg card_take_neg[OF assms(1)])
  have "\<forall>d \<in> fst ` set ?out. dict_get tq d 0 \<ge> 1 \<or> dict_get tq d 0 = 0"
    unfolding keys_balanced_docs
    by (auto simp: balanced_ids_def dest: take_pos_grade take_neg_grade)
  then have "list_all (\<lambda>d. dict_get tq d 0 \<ge> 1 \<or> dict_get tq d 0 = 0) (map fst ?out)"
    by (simp add: list_all_iff)
  then show ?thesis
    using p n assms(2) by (simp add: already_balanced_def)
qed

lemma already_balanced_unchanged:
  assumes "already_balanced docs tq"
  shows "balance_k docs tq > 0" and "balanced_docs docs tq = docs"
proof -
  have k: "balance_k docs tq = length (pos_docs docs tq)" "balance_k docs tq = length (neg_docs docs tq)"
    using assms by (simp_all add: already_balanced_def balance_k_def)
  show "balance_k docs tq > 0" using assms k by (simp add: already_balanced_def)
  have "balanced_ids docs tq = set (pos_docs docs tq) \<union> set (neg_docs docs tq)"
    unfolding balanced_ids_def using k by simp
  also have "\<dots> = fst ` set docs"
    using assms by (auto simp: already_balanced_def pos_docs_def neg_docs_def set_sorted_ids list_all_iff)
  finally have "balanced_ids docs tq = fst ` set docs" .
  then show "balanced_docs docs tq = docs"
    by (force simp: balanced_docs_def filter_id_conv)
qed

lemma map_filter_Some_id: "(\<And>x. x \<in> set xs \<Longrightarrow> f x = Some x) \<Longrightarrow> List.map_filter f xs = xs"
  by (induction xs) auto

lemma set_map_filter: "set (List.map_filter f xs) = {y. \<exists>x \<in> set xs. f x = Some y}"
  by (induction xs) (auto split: option.splits)

lemma distinct_map_filter_balance_entry:
  "distinct (map fst ranking) \<Longrightarrow> distinct (map fst (List.map_filter (balance_entry qrels) ranking))"
proof (induction ranking)
  case Nil then show ?case by simp
next
  case (Cons item ranking)
  have "fst item \<notin> fst ` set (List.map_filter (balance_entry qrels) ranking)"
    using map_filter_balance_entry_keys[of qrels ranking] Cons.prems by auto
  moreover have "balance_entry qrels item = Some e \<Longrightarrow> fst e = fst item" for e
    by (auto simp: balance_entry_def split: if_splits)
  ultimately show ?case using Cons by (auto split: option.splits)
qed

lemma get_balanced_ranking_unchanged:
  assumes "distinct (map fst ranking)"
    and "\<And>t docs. (t, docs) \<in> set ranking \<Longrightarrow> already_balanced docs (dict_get qrels t [])"
  shows "fst (get_balanced_ranking ranking qrels) = ranking"
proof -
  have "balance_entry qrels item = Some item" if "item \<in> set ranking" for item
    using assms(2)[of "fst item" "snd item"] that already_balanced_unchanged[of "snd item" "dict_get qrels (fst item) []"]
    by (simp add: balance_entry_def)
  then show ?thesis
    by (simp add: get_balanced_ranking_result[OF assms(1)] map_filter_Some_id)
qed

lemma get_balanced_ranking_idem:
  assumes "distinct (map fst ranking)"
    and "\<And>t docs. (t, docs) \<in> set ranking \<Longrightarrow> distinct (map fst docs)"
  shows "fst (get_balanced_ranking (fst (get_balanced_ranking ranking qrels)) qrels)
           = fst (get_balanced_ranking ranking qrels)"
proof (rule get_balanced_ranking_unchanged)
  show "distinct (map fst (fst (get_balanced_ranking ranking qrels)))"
    by (simp add: get_balanced_ranking_result[OF assms(1)] distinct_map_filter_balance_entry[OF assms(1)])
next
  fix t out
  assume "(t, out) \<in> set (fst (get_balanced_ranking ranking qrels))"
  then obtain item where item: "item \<in> set ranking" "balance_entry qrels item = Some (t, out)"
    by (auto simp: get_balanced_ranking_result[OF assms(1)] set_map_filter)
  then have "t = fst item" "out = balanced_docs (snd item) (dict_get qrels t [])"
       "balance_k (snd item) (dict_get qrels t []) > 0"
    by (auto simp: balance_entry_def split: if_splits)
  moreover have "distinct (map fst (snd item))"
    using assms(2)[of "fst item" "snd item"] item(1) by simp
  ultimately show "already_balanced out (dict_get qrels t [])"
    using balanced_docs_already_balanced by simp
qed

lemma sorted_reverse_desc:
  "sorted_wrt (\<lambda>a b. key a \<ge> key b) (sorted_reverse key xs)"
proof -
  have "sorted (map key (sort_key key (rev xs)))"
    by (rule sorted_sort_key)
  then have "sorted_wrt (\<lambda>x y. key x \<le> key y) (sort_key key (rev xs))"
    by (simp add: sorted_map)
  then show ?thesis
    by (simp add: sorted_reverse_def sorted_wrt_rev)
qed

lemma sorted_reverse_stable:
  "filter (\<lambda>x. key x = k) (sorted_reverse key xs) = filter (\<lambda>x. key x = k) xs"
proof -
  have "filter (\<lambda>x. key x = k) (sorted_reverse key xs)
          = rev (filter (\<lambda>x. key x = k) (sort_key key (rev xs)))"
    by (simp add: sorted_reverse_def rev_filter)
  also have "\<dots> = rev (filter (\<lambda>x. key x = k) (rev xs))"
    by (simp add: sort_key_stable)
  also have "\<dots> = filter (\<lambda>x. key x = k) xs"
    by (simp add: rev_filter)
  finally show ?thesis .
qed

lemma sorted_ids_desc:
  "sorted_wrt (\<lambda>a b. the (map_of docs a) \<ge> the (map_of docs b)) (sorted_ids docs)"
  unfolding sorted_ids_def by (rule sorted_reverse_desc)

lemma sorted_ids_stable:
  "filter (\<lambda>d. the (map_of docs d) = s) (sorted_ids docs)
     = filter (\<lambda>d. the (map_of docs d) = s) (map fst docs)"
  unfolding sorted_ids_def by (rule sorted_reverse_stable)

lemma take_top:
  assumes "sorted_wrt R xs" and "d' \<in> set (take k xs)" and "d \<in> set xs - set (take k xs)"
  shows "R d' d"
proof -
  have "xs = take k xs @ drop k xs" by simp
  then have "sorted_wrt R (take k xs @ drop k xs)" using assms(1) by simp
  then have "\<forall>x \<in> set (take k xs). \<forall>y \<in> set (drop k xs). R x y"
    unfolding sorted_wrt_append by blast
  moreover have "d \<in> set (drop k xs)"
    using assms(3) by (metis DiffD1 DiffD2 UnE append_take_drop_id set_append)
  ultimately show ?thesis using assms(2) by blast
qed

lemma pos_docs_desc:
  "sorted_wrt (\<lambda>a b. the (map_of docs a) \<ge> the (map_of docs b)) (pos_docs docs tq)"
  unfolding pos_docs_def using sorted_ids_desc by (rule sorted_wrt_filter)

lemma neg_docs_desc:
  "sorted_wrt (\<lambda>a b. the (map_of docs a) \<ge> the (map_of docs b)) (neg_docs docs tq)"
  unfolding neg_docs_def using sorted_ids_desc by (rule sorted_wrt_filter)

section \<open>Helper lemmas on the entity qrels balancer\<close>

lemmas eq_defs = eqrels_pos_def eqrels_neg_def eqrels_k_def eqrels_balanced_def dict_update_def
  dict_from_keys_def eqrels_step_def collect_filtered_eqrels_def

lemma fold_update_fresh:
  "distinct ks \<Longrightarrow> set ks \<inter> fst ` set acc = {} \<Longrightarrow>
   fold (\<lambda>k d. AList.update k v d) ks acc = acc @ map (\<lambda>k. (k, v)) ks"
proof (induction ks arbitrary: acc)
  case Nil
  then show ?case by simp
next
  case (Cons k ks)
  have "k \<notin> fst ` set acc" using Cons.prems(2) by auto
  then have u: "AList.update k v acc = acc @ [(k, v)]" by (rule update_fresh)
  have "set ks \<inter> fst ` set (acc @ [(k, v)]) = {}"
    using Cons.prems by auto
  then show ?case
    using Cons.IH[of "acc @ [(k, v)]"] Cons.prems(1) by (simp add: u)
qed

lemma dict_from_keys_distinct: "distinct ks \<Longrightarrow> dict_from_keys ks v = map (\<lambda>k. (k, v)) ks"
  by (simp add: dict_from_keys_def fold_update_fresh)

lemma fold_update_pairs_fresh:
  "distinct (map fst other) \<Longrightarrow> fst ` set other \<inter> fst ` set d = {} \<Longrightarrow>
   fold (\<lambda>(k, v) d. AList.update k v d) other d = d @ other"
proof (induction other arbitrary: d)
  case Nil
  then show ?case by simp
next
  case (Cons kv other)
  obtain k v where kv: "kv = (k, v)" by (cases kv)
  have "k \<notin> fst ` set d" using Cons.prems(2) kv by auto
  then have u: "AList.update k v d = d @ [(k, v)]" by (rule update_fresh)
  have "fst ` set other \<inter> fst ` set (d @ [(k, v)]) = {}"
    using Cons.prems kv by auto
  then show ?case
    using Cons.IH[of "d @ [(k, v)]"] Cons.prems(1) by (simp add: u kv)
qed

lemma dict_update_disjoint:
  "distinct (map fst other) \<Longrightarrow> fst ` set other \<inter> fst ` set d = {} \<Longrightarrow>
   dict_update d other = d @ other"
  by (simp add: dict_update_def fold_update_pairs_fresh)

lemma distinct_eqrels_pos: "distinct (map fst ents) \<Longrightarrow> distinct (eqrels_pos ents)"
  by (simp add: eqrels_pos_def distinct_map_filter)

lemma distinct_eqrels_neg: "distinct (map fst ents) \<Longrightarrow> distinct (eqrels_neg ents)"
  by (simp add: eqrels_neg_def distinct_map_filter)

lemma eqrels_pos_neg_disjoint:
  assumes "distinct (map fst ents)"
  shows "set (eqrels_pos ents) \<inter> set (eqrels_neg ents) = {}"
proof -
  have "g = g'" if "(e, g) \<in> set ents" "(e, g') \<in> set ents" for e g g'
    using assms that by (meson eq_key_imp_eq_value)
  then show ?thesis
    by (fastforce simp: eqrels_pos_def eqrels_neg_def)
qed

lemma eqrels_balanced_shape:
  assumes "distinct (map fst ents)"
  shows "eqrels_balanced ents
           = map (\<lambda>e. (e, 1)) (take (eqrels_k ents) (eqrels_pos ents))
             @ map (\<lambda>e. (e, 0)) (take (eqrels_k ents) (eqrels_neg ents))"
proof -
  let ?p = "take (eqrels_k ents) (eqrels_pos ents)"
  let ?n = "take (eqrels_k ents) (eqrels_neg ents)"
  have dp: "distinct ?p" using distinct_eqrels_pos[OF assms] by simp
  have dn: "distinct ?n" using distinct_eqrels_neg[OF assms] by simp
  have "set ?p \<inter> set ?n = {}"
    using eqrels_pos_neg_disjoint[OF assms] set_take_subset[of "eqrels_k ents" "eqrels_pos ents"]
      set_take_subset[of "eqrels_k ents" "eqrels_neg ents"] by blast
  then have disj: "fst ` set (map (\<lambda>e. (e, 0::int)) ?n) \<inter> fst ` set (map (\<lambda>e. (e, 1::int)) ?p) = {}"
    by (auto simp: image_image)
  have "distinct (map fst (map (\<lambda>e. (e, 0::int)) ?n))"
    using dn by (simp add: comp_def)
  then show ?thesis
    unfolding eqrels_balanced_def dict_from_keys_distinct[OF dp] dict_from_keys_distinct[OF dn]
    using disj by (rule dict_update_disjoint)
qed

lemma eqrels_k_le:
  "eqrels_k ents \<le> length (eqrels_pos ents)" "eqrels_k ents \<le> length (eqrels_neg ents)"
  by (simp_all add: eqrels_k_def)

lemma eqrels_balanced_counts:
  assumes "distinct (map fst ents)"
  shows "length (filter (\<lambda>(e, g). g = 1) (eqrels_balanced ents)) = eqrels_k ents"
    and "length (filter (\<lambda>(e, g). g = 0) (eqrels_balanced ents)) = eqrels_k ents"
  using eqrels_k_le[of ents]
  by (simp_all add: eqrels_balanced_shape[OF assms] filter_map comp_def)

lemma fold_eqrels_step_lookup:
  "distinct (map fst xs) \<Longrightarrow>
   map_of (fold eqrels_step xs acc) qid
     = (case map_of xs qid of None \<Rightarrow> map_of acc qid
        | Some ents \<Rightarrow> if eqrels_k ents > 0 then Some (eqrels_balanced ents) else map_of acc qid)"
proof (induction xs arbitrary: acc)
  case Nil
  then show ?case by simp
next
  case (Cons item xs)
  obtain q ents where item: "item = (q, ents)" by (cases item)
  have nq: "map_of xs q = None"
    using Cons.prems item by (simp add: map_of_eq_None_iff)
  have IH: "map_of (fold eqrels_step xs (eqrels_step item acc)) qid
     = (case map_of xs qid of None \<Rightarrow> map_of (eqrels_step item acc) qid
        | Some ents \<Rightarrow> if eqrels_k ents > 0 then Some (eqrels_balanced ents)
                         else map_of (eqrels_step item acc) qid)"
    using Cons.IH[of "eqrels_step item acc"] Cons.prems by simp
  show ?case
  proof (cases "qid = q")
    case True
    then have "map_of (eqrels_step item acc) qid
                 = (if eqrels_k ents > 0 then Some (eqrels_balanced ents) else map_of acc qid)"
      by (simp add: item eqrels_step_def AList.update_conv')
    moreover have "map_of (fold eqrels_step xs (eqrels_step item acc)) qid
                     = map_of (eqrels_step item acc) qid"
      using IH nq True by simp
    ultimately have "map_of (fold eqrels_step (item # xs) acc) qid
                 = (if eqrels_k ents > 0 then Some (eqrels_balanced ents) else map_of acc qid)"
      by simp
    then show ?thesis
      unfolding item using True by simp
  next
    case False
    then have "map_of (eqrels_step item acc) qid = map_of acc qid"
      by (simp add: item eqrels_step_def AList.update_conv')
    then have "map_of (fold eqrels_step (item # xs) acc) qid
                 = (case map_of xs qid of None \<Rightarrow> map_of acc qid
                    | Some ents \<Rightarrow> if eqrels_k ents > 0 then Some (eqrels_balanced ents)
                                     else map_of acc qid)"
      using IH by (simp split: option.splits)
    then show ?thesis
      unfolding item using False by simp
  qed
qed

lemma collect_filtered_eqrels_lookup:
  "distinct (map fst eqrels_dict) \<Longrightarrow> map_of eqrels_dict qid = Some ents \<Longrightarrow>
   map_of (collect_filtered_eqrels eqrels_dict) qid
     = (if eqrels_k ents > 0 then Some (eqrels_balanced ents) else None)"
  by (simp add: collect_filtered_eqrels_def fold_eqrels_step_lookup)

lemma set_update_subset: "set (AList.update k v al) \<subseteq> insert (k, v) (set al)"
  by (induction al) auto

lemma set_dict_from_keys: "set (dict_from_keys ks v) \<subseteq> (\<lambda>k. (k, v)) ` set ks"
proof -
  have "set (fold (\<lambda>k d. AList.update k v d) ks acc) \<subseteq> set acc \<union> (\<lambda>k. (k, v)) ` set ks" for acc
  proof (induction ks arbitrary: acc)
    case Nil
    then show ?case by simp
  next
    case (Cons k ks)
    show ?case
      using Cons.IH[of "AList.update k v acc"] set_update_subset[of k v acc] by auto
  qed
  from this[of "[]"] show ?thesis by (simp add: dict_from_keys_def)
qed

lemma set_dict_update: "set (dict_update d other) \<subseteq> set d \<union> set other"
  unfolding dict_update_def
proof (induction other arbitrary: d)
  case Nil
  then show ?case by simp
next
  case (Cons kv other)
  obtain k v where kv: "kv = (k, v)" by (cases kv)
  show ?case
    using Cons.IH[of "AList.update k v d"] set_update_subset[of k v d] by (auto simp: kv)
qed

lemma eqrels_balanced_grades: "(e, g) \<in> set (eqrels_balanced ents) \<Longrightarrow> g = 1 \<or> g = 0"
  using set_dict_update[of "dict_from_keys (take (eqrels_k ents) (eqrels_pos ents)) 1"
                           "dict_from_keys (take (eqrels_k ents) (eqrels_neg ents)) 0"]
    set_dict_from_keys[of "take (eqrels_k ents) (eqrels_pos ents)" "1::int"]
    set_dict_from_keys[of "take (eqrels_k ents) (eqrels_neg ents)" "0::int"]
  unfolding eqrels_balanced_def by blast

lemma set_fold_eqrels_step:
  "(q, b) \<in> set (fold eqrels_step xs acc) \<Longrightarrow>
   (q, b) \<in> set acc \<or> (\<exists>ents. (q, ents) \<in> set xs \<and> b = eqrels_balanced ents)"
proof (induction xs arbitrary: acc)
  case Nil
  then show ?case by simp
next
  case (Cons item xs)
  obtain q' ents where item: "item = (q', ents)" by (cases item)
  from Cons.IH[of "eqrels_step item acc"] Cons.prems
  consider "(q, b) \<in> set (eqrels_step item acc)"
    | "\<exists>ents. (q, ents) \<in> set xs \<and> b = eqrels_balanced ents" by auto
  then show ?case
  proof cases
    case 1
    then show ?thesis
      using set_update_subset[of q' "eqrels_balanced ents" acc]
      by (auto simp: item eqrels_step_def split: if_splits)
  next
    case 2
    then show ?thesis by auto
  qed
qed

lemma collect_filtered_eqrels_grades:
  "(q, b) \<in> set (collect_filtered_eqrels eqrels_dict) \<Longrightarrow> (e, g) \<in> set b \<Longrightarrow> g = 1 \<or> g = 0"
  using set_fold_eqrels_step[of q b eqrels_dict "[]"] eqrels_balanced_grades
  by (auto simp: collect_filtered_eqrels_def)

lemma eqrels_balanced_regraded:
  assumes "distinct (map fst ents)" and "(e, g) \<in> set ents" and "e \<in> fst ` set (eqrels_balanced ents)"
  shows "g \<ge> 1 \<Longrightarrow> map_of (eqrels_balanced ents) e = Some 1"
    and "g = 0 \<Longrightarrow> map_of (eqrels_balanced ents) e = Some 0"
    and "g \<ge> 1 \<or> g = 0"
proof -
  let ?p = "take (eqrels_k ents) (eqrels_pos ents)"
  let ?n = "take (eqrels_k ents) (eqrels_neg ents)"
  have uniq: "g' = g" if "(e, g') \<in> set ents" for g'
    using assms(1,2) that by (meson eq_key_imp_eq_value)
  have mem: "e \<in> set ?p \<or> e \<in> set ?n"
    using assms(3) by (auto simp: eqrels_balanced_shape[OF assms(1)])
  have p: "g \<ge> 1" if "e \<in> set ?p"
    using in_set_takeD[OF that] uniq by (auto simp: eqrels_pos_def)
  have n: "g = 0" if "e \<in> set ?n"
    using in_set_takeD[OF that] uniq by (auto simp: eqrels_neg_def)
  show "g \<ge> 1 \<or> g = 0" using mem p n by blast
  have mp: "map_of (map (\<lambda>e. (e, 1::int)) ?p) e = (if e \<in> set ?p then Some 1 else None)"
    by (simp add: map_of_map_restrict restrict_map_def)
  have mn: "map_of (map (\<lambda>e. (e, 0::int)) ?n) e = (if e \<in> set ?n then Some 0 else None)"
    by (simp add: map_of_map_restrict restrict_map_def)
  show "map_of (eqrels_balanced ents) e = Some 1" if "g \<ge> 1"
    using that mem n by (auto simp: eqrels_balanced_shape[OF assms(1)] map_add_def mp mn)
  show "map_of (eqrels_balanced ents) e = Some 0" if "g = 0"
    using that mem p by (auto simp: eqrels_balanced_shape[OF assms(1)] map_add_def mp mn)
qed

section \<open>Helper lemmas on the entity classifier\<close>

lemma fold_classify_judgment:
  "fold_err (classify_judgment links) doc_rels (P, N, lg)
     = (if all_linked links doc_rels
        then Inr (P \<union> pos_doc_entities links doc_rels, N \<union> nonpos_doc_entities links doc_rels, lg)
        else Inl TypeError)"
proof (induction doc_rels arbitrary: P N)
  case Nil
  then show ?case
    by (simp add: all_linked_def pos_doc_entities_def nonpos_doc_entities_def)
next
  case (Cons item doc_rels)
  obtain d rel where item: "item = (d, rel)" by (cases item)
  show ?case
  proof (cases "links d")
    case None
    then show ?thesis
      by (simp add: item classify_judgment_def all_linked_def)
  next
    case (Some es)
    show ?thesis
    proof (cases "rel \<ge> 1")
      case True
      then have "classify_judgment links item (P, N, lg) = Inr (P \<union> es, N, lg)"
        by (simp add: item classify_judgment_def Some)
      then show ?thesis
        using True Some Cons.IH[of "P \<union> es" N]
        by (auto simp: item all_linked_def pos_doc_entities_def nonpos_doc_entities_def
                       linked_ents_of_def)
    next
      case False
      then have "classify_judgment links item (P, N, lg) = Inr (P, N \<union> es, lg)"
        by (simp add: item classify_judgment_def Some)
      then show ?thesis
        using False Some Cons.IH[of P "N \<union> es"]
        by (auto simp: item all_linked_def pos_doc_entities_def nonpos_doc_entities_def
                       linked_ents_of_def)
    qed
  qed
qed

lemma classify_topic_eq:
  "classify_topic links (topic, doc_rels) st
     = (if all_linked links doc_rels
        then Inr (AList.update topic (classes_of links doc_rels) (fst st), snd st)
        else Inl TypeError)"
  by (simp add: classify_topic_def fold_classify_judgment classes_of_def Let_def)

lemma fold_classify_topic_error:
  "fold_err (classify_topic links) qrels st = Inl e \<Longrightarrow>
   e = TypeError \<and> \<not> list_all (\<lambda>(topic, doc_rels). all_linked links doc_rels) qrels"
proof (induction qrels arbitrary: st)
  case Nil
  then show ?case by simp
next
  case (Cons item qrels)
  obtain t drs where item: "item = (t, drs)" by (cases item)
  show ?case
  proof (cases "all_linked links drs")
    case True
    then show ?thesis
      using Cons.prems Cons.IH by (auto simp: item classify_topic_eq)
  next
    case False
    then show ?thesis
      using Cons.prems by (simp add: item classify_topic_eq)
  qed
qed

lemma fold_classify_topic_result:
  "fold_err (classify_topic links) qrels st = Inr (res, lg) \<Longrightarrow> distinct (map fst qrels) \<Longrightarrow>
   lg = snd st
   \<and> list_all (\<lambda>(topic, doc_rels). all_linked links doc_rels) qrels
   \<and> map_of res topic
       = (case map_of qrels topic of None \<Rightarrow> map_of (fst st) topic
          | Some doc_rels \<Rightarrow> Some (classes_of links doc_rels))"
proof (induction qrels arbitrary: st)
  case Nil
  then show ?case by auto
next
  case (Cons item qrels)
  obtain t drs where item: "item = (t, drs)" by (cases item)
  have linked: "all_linked links drs"
    using Cons.prems(1) by (auto simp: item classify_topic_eq split: if_splits)
  let ?st' = "(AList.update t (classes_of links drs) (fst st), snd st)"
  have run: "fold_err (classify_topic links) qrels ?st' = Inr (res, lg)"
    using Cons.prems(1) linked by (simp add: item classify_topic_eq)
  have nt: "map_of qrels t = None"
    using Cons.prems(2) by (simp add: item map_of_eq_None_iff)
  note IH = Cons.IH[OF run]
  show ?case
  proof (cases "topic = t")
    case True
    then show ?thesis
      using IH Cons.prems(2) linked nt by (simp add: item AList.update_conv')
  next
    case False
    then show ?thesis
      using IH Cons.prems(2) linked
      by (simp add: item AList.update_conv' split: option.splits)
  qed
qed

lemma fold_classify_topic_total:
  "list_all (\<lambda>(topic, doc_rels). all_linked links doc_rels) qrels \<Longrightarrow>
   \<exists>res. fold_err (classify_topic links) qrels st = Inr (res, snd st)"
proof (induction qrels arbitrary: st)
  case Nil
  then show ?case by (cases st) simp
next
  case (Cons item qrels)
  obtain t drs where item: "item = (t, drs)" by (cases item)
  show ?case
    using Cons.prems Cons.IH[of "(AList.update t (classes_of links drs) (fst st), snd st)"]
    by (simp add: item classify_topic_eq)
qed

lemma all_judged_linked_iff:
  "list_all (\<lambda>(topic, doc_rels). all_linked links doc_rels) qrels
     \<longleftrightarrow> (\<forall>(topic, doc_rels) \<in> set qrels. \<forall>(doc_id, rel) \<in> set doc_rels. doc_id \<in> dom links)"
  by (auto simp: list_all_iff all_linked_def)

lemma nonpos_zero_doc_entities:
  "\<forall>(doc_id, rel) \<in> set doc_rels. rel \<ge> 0 \<Longrightarrow>
   nonpos_doc_entities links doc_rels = zero_doc_entities links doc_rels"
proof -
  assume "\<forall>(doc_id, rel) \<in> set doc_rels. rel \<ge> 0"
  then have "filter (\<lambda>(doc_id, rel). rel < 1) doc_rels = filter (\<lambda>(doc_id, rel). rel = 0) doc_rels"
    by (intro filter_cong) auto
  then show ?thesis by (simp add: nonpos_doc_entities_def zero_doc_entities_def)
qed

lemmas cls_defs = get_classified_entities_def classify_topic_def classify_judgment_def

lemma fold_classify_topic_success:
  "fold_err (classify_topic links) qrels st = Inr r \<Longrightarrow>
   list_all (\<lambda>(topic, doc_rels). all_linked links doc_rels) qrels"
proof (induction qrels arbitrary: st)
  case Nil
  then show ?case by simp
next
  case (Cons item qrels)
  obtain t drs where item: "item = (t, drs)" by (cases item)
  show ?case
    using Cons.prems Cons.IH
    by (auto simp: item classify_topic_eq split: if_splits)
qed

section \<open>Helper lemmas on the overlap filter\<close>

lemma finite_scored_ents_of: "finite (scored_ents_of ent_qrels qid)"
  by (simp add: scored_ents_of_def split: option.splits)

lemma filter_line_wf:
  assumes "well_formed_line line" and "finite scored"
  shows "filter_line scored doc_ents qid line (rank, dc, written)
           = (if retained scored doc_ents line
              then Inr (rank + 1, dc + 1,
                        written @ [out_line qid (line_field line 1) (line_field line 2) rank
                                     (line_field line 4)])
              else Inr (rank, dc + 1, written))"
proof -
  have "card (scored \<inter> linked_ents_of doc_ents (line_field line 2)) > 0
          \<longleftrightarrow> retained scored doc_ents line"
    using assms(2) by (simp add: retained_def card_gt_0_iff)
  then show ?thesis
    using assms(1)
    by (simp add: filter_line_def well_formed_line_def list_index_def line_field_def Let_def)
qed

lemma fold_filter_line:
  assumes "finite scored"
  shows "list_all well_formed_line group_lines \<Longrightarrow>
   fold_err (filter_line scored doc_ents qid) group_lines (rank, dc, written)
     = Inr (rank + length (filter (retained scored doc_ents) group_lines),
            dc + length group_lines,
            written @ map (\<lambda>(rank, line). out_line qid (line_field line 1) (line_field line 2)
                                             rank (line_field line 4))
                          (enumerate rank (filter (retained scored doc_ents) group_lines)))"
proof (induction group_lines arbitrary: rank dc written)
  case Nil
  then show ?case by simp
next
  case (Cons line group_lines)
  then have wf: "well_formed_line line" and rest: "list_all well_formed_line group_lines"
    by simp_all
  show ?case
  proof (cases "retained scored doc_ents line")
    case True
    then show ?thesis
      using Cons.IH[OF rest] by (simp add: filter_line_wf[OF wf assms])
  next
    case False
    then show ?thesis
      using Cons.IH[OF rest] by (simp add: filter_line_wf[OF wf assms])
  qed
qed

lemma filter_group_wf:
  assumes "list_all well_formed_line group_lines"
  shows "filter_group ent_qrels doc_ents (qid, group_lines) st
     = Inr (fst st + length group_lines,
            snd st @ filtered_group ent_qrels doc_ents (qid, group_lines))"
proof -
  have "fold_err (filter_line (scored_ents_of ent_qrels qid) doc_ents qid) group_lines
          (1, fst st, snd st)
        = Inr (1 + length (filter (retained (scored_ents_of ent_qrels qid) doc_ents) group_lines),
               fst st + length group_lines,
               snd st @ filtered_group ent_qrels doc_ents (qid, group_lines))"
    unfolding filtered_group_def prod.case
    by (rule fold_filter_line[OF finite_scored_ents_of assms])
  then show ?thesis
    unfolding filter_group_def prod.case by (simp only: sum.case prod.case)
qed

lemma fold_filter_group:
  "list_all (\<lambda>(qid, group_lines). list_all well_formed_line group_lines) groups \<Longrightarrow>
   fold_err (filter_group ent_qrels doc_ents) groups st
     = Inr (fst st + length (concat (map snd groups)),
            snd st @ concat (map (filtered_group ent_qrels doc_ents) groups))"
proof (induction groups arbitrary: st)
  case Nil
  then show ?case by simp
next
  case (Cons item groups)
  obtain qid g where item: "item = (qid, g)" by (cases item)
  show ?case
    using Cons.prems Cons.IH
    by (simp add: item filter_group_wf)
qed

lemma concat_groupby: "concat (map snd (groupby key xs)) = xs"
  by (induction key xs rule: groupby.induct) simp_all

lemma groupby_groups:
  "(k, g) \<in> set (groupby key xs) \<Longrightarrow> g \<noteq> [] \<and> (\<forall>x \<in> set g. key x = k)"
proof (induction key xs rule: groupby.induct)
  case (1 key)
  then show ?case by simp
next
  case (2 key x xs)
  from "2.prems" consider "k = key x" "g = x # takeWhile (\<lambda>y. key y = key x) xs"
    | "(k, g) \<in> set (groupby key (dropWhile (\<lambda>y. key y = key x) xs))"
    by auto
  then show ?case
  proof cases
    case 1
    then show ?thesis by (auto dest: set_takeWhileD)
  next
    case 2
    then show ?thesis using "2.IH" by blast
  qed
qed

lemma groupby_well_formed:
  assumes "list_all P xs"
  shows "list_all (\<lambda>(k, g). list_all P g) (groupby key xs)"
proof -
  have "set g \<subseteq> set xs" if "(k, g) \<in> set (groupby key xs)" for k g
  proof -
    have "g \<in> set (map snd (groupby key xs))"
      using that by (metis image_eqI set_map snd_conv)
    then have "set g \<subseteq> set (concat (map snd (groupby key xs)))"
      unfolding set_concat by blast
    then show ?thesis by (simp add: concat_groupby)
  qed
  then show ?thesis
    using assms by (auto simp: list_all_iff)
qed

lemma filter_ranking_wf:
  assumes "list_all well_formed_line f_initial"
  shows "filter_ranking ent_qrels f_initial doc_ents
           = Inr (length f_initial,
                  concat (map (filtered_group ent_qrels doc_ents) (groupby line_qid f_initial)))"
  using fold_filter_group[OF groupby_well_formed[OF assms, of line_qid], of ent_qrels doc_ents "(0, [])"]
  by (simp add: filter_ranking_def concat_groupby)

lemma filtered_group_absent:
  "qid \<notin> fst ` set ent_qrels \<Longrightarrow> filtered_group ent_qrels doc_ents (qid, group_lines) = []"
proof -
  assume "qid \<notin> fst ` set ent_qrels"
  then have "scored_ents_of ent_qrels qid = {}"
    by (simp add: scored_ents_of_def map_of_eq_None_iff[symmetric])
  then show ?thesis
    by (simp add: filtered_group_def retained_def enumerate_eq_zip)
qed

lemmas fr_defs = well_formed_line_def line_field_def retained_def filtered_group_def line_qid_def
  scored_ents_of_def linked_ents_of_def out_line_def enumerate_eq_zip digit_char_def

section \<open>Helper lemmas on the overlap statistics\<close>











section \<open>Claims on the document balancer\<close>

text \<open>
  C7, as the code has it: a topic of the ranking for which \<open>min (|pos|, |neg|) = 0\<close>, with
  \<open>pos\<close> and \<open>neg\<close> the two lists the balancer builds (a candidate without a judgment is a
  member of \<open>neg\<close>, through the default of \<open>topic_qrels.get(d, 0)\<close>), gets no entry in the
  balanced result (not even an empty one), and the log holds the warning
  ``Could not balance query #<topic>: missing positive or negative documents, skipped.''
\<close>

theorem C7_unbalanceable_query_absent:
  assumes "distinct (map fst ranking)"
    and "map_of ranking topic = Some docs"
    and "min (length (pos_docs docs (dict_get qrels topic [])))
             (length (neg_docs docs (dict_get qrels topic []))) = 0"
  shows "topic \<notin> fst ` set (fst (get_balanced_ranking ranking qrels))
         \<and> map_of (fst (get_balanced_ranking ranking qrels)) topic = None
         \<and> WARNING (''Could not balance query #'' @ topic
                     @ '': missing positive or negative documents, skipped.'')
               \<in> set (snd (get_balanced_ranking ranking qrels))"
proof -
  have k: "balance_k docs (dict_get qrels topic []) = 0"
    using assms(3) by (simp add: balance_k_def)
  have none: "map_of (fst (get_balanced_ranking ranking qrels)) topic = None"
    using get_balanced_ranking_lookup[OF assms(1,2)] k by simp
  have mem: "(topic, docs) \<in> set ranking"
    using assms(2) by (rule map_of_SomeD)
  have "WARNING (''Could not balance query #'' @ topic
                  @ '': missing positive or negative documents, skipped.'')
          \<in> set (balance_log qrels (topic, docs))"
    using k by (simp add: balance_log_def skipped_warning_def)
  then have "WARNING (''Could not balance query #'' @ topic
                       @ '': missing positive or negative documents, skipped.'')
               \<in> set (snd (get_balanced_ranking ranking qrels))"
    using mem unfolding get_balanced_ranking_log by force
  with none show ?thesis
    by (simp add: map_of_eq_None_iff)
qed

text \<open>
  With \<open>neg\<close> read as the candidates judged with grade 0, the claim fails: for ranking
  \<open>{q1: {d1: 5, d2: 4}}\<close> and qrels \<open>{q1: {d1: 1}}\<close> no candidate is judged with grade 0,
  yet q1 is in the balanced result (with the unjudged d2) and nothing is logged.
\<close>

theorem C7_only_positive_judgments_counterexample:
  "map_of (dict_get [(''q1'', [(''d1'', 1::int)])] ''q1'' []) ''d1'' = Some 1
   \<and> map_of (dict_get [(''q1'', [(''d1'', 1::int)])] ''q1'' []) ''d2'' = None
   \<and> get_balanced_ranking [(''q1'', [(''d1'', 5), (''d2'', 4)])] [(''q1'', [(''d1'', 1)])]
       = ([(''q1'', [(''d1'', 5), (''d2'', 4)])], [])"
  by (simp add: get_balanced_ranking_def balance_step_def bal_defs)

theorem C7_unbalanceable_query_absent_witness:
  "distinct (map fst [(''q1'', [(''d1'', 1::real)]), (''q2'', [(''d1'', 2), (''d2'', 1)])])
   \<and> map_of [(''q1'', [(''d1'', 1::real)]), (''q2'', [(''d1'', 2), (''d2'', 1)])] ''q1''
       = Some [(''d1'', 1)]
   \<and> min (length (pos_docs [(''d1'', 1)]
                   (dict_get [(''q1'', [(''d1'', 1)]), (''q2'', [(''d1'', 1), (''d2'', 0)])] ''q1'' [])))
          (length (neg_docs [(''d1'', 1)]
                   (dict_get [(''q1'', [(''d1'', 1)]), (''q2'', [(''d1'', 1), (''d2'', 0)])] ''q1'' [])))
       = 0
   \<and> ''q1'' \<notin> fst ` set (fst (get_balanced_ranking
                                   [(''q1'', [(''d1'', 1)]), (''q2'', [(''d1'', 2), (''d2'', 1)])]
                                   [(''q1'', [(''d1'', 1)]), (''q2'', [(''d1'', 1), (''d2'', 0)])]))
   \<and> WARNING ''Could not balance query #q1: missing positive or negative documents, skipped.''
        \<in> set (snd (get_balanced_ranking
                       [(''q1'', [(''d1'', 1)]), (''q2'', [(''d1'', 2), (''d2'', 1)])]
                       [(''q1'', [(''d1'', 1)]), (''q2'', [(''d1'', 1), (''d2'', 0)])]))"
proof -
  have a: "distinct (map fst [(''q1'', [(''d1'', 1::real)]), (''q2'', [(''d1'', 2), (''d2'', 1)])])"
    by simp
  have b: "map_of [(''q1'', [(''d1'', 1::real)]), (''q2'', [(''d1'', 2), (''d2'', 1)])] ''q1''
             = Some [(''d1'', 1)]"
    by simp
  have c: "min (length (pos_docs [(''d1'', 1)]
                   (dict_get [(''q1'', [(''d1'', 1)]), (''q2'', [(''d1'', 1), (''d2'', 0)])] ''q1'' [])))
               (length (neg_docs [(''d1'', 1)]
                   (dict_get [(''q1'', [(''d1'', 1)]), (''q2'', [(''d1'', 1), (''d2'', 0)])] ''q1'' [])))
           = 0"
    by (simp add: bal_defs)
  note t = C7_unbalanceable_query_absent[OF a b c]
  have d: "''q1'' \<notin> fst ` set (fst (get_balanced_ranking
                                   [(''q1'', [(''d1'', 1)]), (''q2'', [(''d1'', 2), (''d2'', 1)])]
                                   [(''q1'', [(''d1'', 1)]), (''q2'', [(''d1'', 1), (''d2'', 0)])]))"
    using t by (elim conjE)
  have e: "WARNING ''Could not balance query #q1: missing positive or negative documents, skipped.''
        \<in> set (snd (get_balanced_ranking
                       [(''q1'', [(''d1'', 1)]), (''q2'', [(''d1'', 2), (''d2'', 1)])]
                       [(''q1'', [(''d1'', 1)]), (''q2'', [(''d1'', 1), (''d2'', 0)])]))"
    using t by simp
  show ?thesis
    by (intro conjI) (rule a, rule b, rule c, rule d, rule e)
qed

text \<open>
  C1, as the code has it: the candidates of a topic are sorted by descending score (a stable
  sort: candidates of equal score keep the order of the ranking) and the sorted sequence is
  split into \<open>pos_docs\<close> (a judgment of grade at least 1) and \<open>neg_docs\<close> (a judgment of grade
  0, or no judgment at all: the lookup \<open>topic_qrels.get(d, 0)\<close> gives a candidate without a
  judgment the grade 0). The balanced output of a topic holds exactly the first k candidates
  of each sub-sequence, with their scores, and these are top-scored: no candidate of a class
  that is left out has a higher score than one that is kept. A candidate judged with a
  negative grade is in neither sub-sequence and never appears. A candidate without a judgment
  is a member of \<open>neg_docs\<close> and can be retained.
\<close>

theorem C1_balanced_output_classes:
  assumes "distinct (map fst ranking)"
    and "map_of ranking topic = Some docs"
    and "map_of (fst (get_balanced_ranking ranking qrels)) topic = Some out"
  shows "pos_docs docs (dict_get qrels topic [])
           = filter (\<lambda>d. case map_of (dict_get qrels topic []) d of
                            None \<Rightarrow> False | Some g \<Rightarrow> g \<ge> 1) (sorted_ids docs)
         \<and> neg_docs docs (dict_get qrels topic [])
           = filter (\<lambda>d. case map_of (dict_get qrels topic []) d of
                            None \<Rightarrow> True | Some g \<Rightarrow> g = 0) (sorted_ids docs)
         \<and> fst ` set out
           = set (take (balance_k docs (dict_get qrels topic []))
                       (pos_docs docs (dict_get qrels topic [])))
             \<union> set (take (balance_k docs (dict_get qrels topic []))
                          (neg_docs docs (dict_get qrels topic [])))
         \<and> set out \<subseteq> set docs
         \<and> (\<forall>d g. map_of (dict_get qrels topic []) d = Some g \<and> g < 0
                \<longrightarrow> d \<notin> fst ` set out)
         \<and> set (sorted_ids docs) = fst ` set docs
         \<and> length (sorted_ids docs) = length docs
         \<and> sorted_wrt (\<lambda>a b. the (map_of docs a) \<ge> the (map_of docs b)) (sorted_ids docs)
         \<and> (\<forall>s. filter (\<lambda>d. the (map_of docs d) = s) (sorted_ids docs)
                   = filter (\<lambda>d. the (map_of docs d) = s) (map fst docs))
         \<and> (\<forall>d' \<in> set (take (balance_k docs (dict_get qrels topic []))
                              (pos_docs docs (dict_get qrels topic []))).
              \<forall>d \<in> set (pos_docs docs (dict_get qrels topic []))
                      - set (take (balance_k docs (dict_get qrels topic []))
                                  (pos_docs docs (dict_get qrels topic []))).
                the (map_of docs d') \<ge> the (map_of docs d))
         \<and> (\<forall>d' \<in> set (take (balance_k docs (dict_get qrels topic []))
                              (neg_docs docs (dict_get qrels topic []))).
              \<forall>d \<in> set (neg_docs docs (dict_get qrels topic []))
                      - set (take (balance_k docs (dict_get qrels topic []))
                                  (neg_docs docs (dict_get qrels topic []))).
                the (map_of docs d') \<ge> the (map_of docs d))"
proof -
  let ?tq = "dict_get qrels topic []"
  have out: "out = balanced_docs docs ?tq"
    using get_balanced_ranking_lookup[OF assms(1,2), of qrels] assms(3)
    by (simp split: if_splits)
  have p: "pos_docs docs ?tq
           = filter (\<lambda>d. case map_of ?tq d of None \<Rightarrow> False | Some g \<Rightarrow> g \<ge> 1) (sorted_ids docs)"
    unfolding pos_docs_def
    by (rule filter_cong) (auto simp: dict_get_def[of ?tq] split: option.splits)
  have n: "neg_docs docs ?tq
           = filter (\<lambda>d. case map_of ?tq d of None \<Rightarrow> True | Some g \<Rightarrow> g = 0) (sorted_ids docs)"
    unfolding neg_docs_def
    by (rule filter_cong) (auto simp: dict_get_def[of ?tq] split: option.splits)
  have k: "fst ` set out = set (take (balance_k docs ?tq) (pos_docs docs ?tq))
             \<union> set (take (balance_k docs ?tq) (neg_docs docs ?tq))"
    by (simp add: out keys_balanced_docs balanced_ids_def)
  have s: "set out \<subseteq> set docs"
    by (auto simp: out balanced_docs_def)
  have g: "d \<notin> fst ` set out" if "map_of ?tq d = Some g" "g < 0" for d g
  proof
    assume "d \<in> fst ` set out"
    then have "dict_get ?tq d 0 \<ge> 1 \<or> dict_get ?tq d 0 = 0"
      unfolding k by (auto dest: take_pos_grade take_neg_grade)
    then show False using that by (simp add: dict_get_def[of ?tq])
  qed
  have g': "\<forall>d g. map_of ?tq d = Some g \<and> g < 0 \<longrightarrow> d \<notin> fst ` set out"
    using g by blast
  have m: "set (sorted_ids docs) = fst ` set docs"
    by (rule set_sorted_ids)
  have l: "length (sorted_ids docs) = length docs"
    by (simp add: sorted_ids_def sorted_reverse_def)
  have st: "\<forall>s. filter (\<lambda>d. the (map_of docs d) = s) (sorted_ids docs)
                  = filter (\<lambda>d. the (map_of docs d) = s) (map fst docs)"
    using sorted_ids_stable by blast
  have tp: "\<forall>d' \<in> set (take (balance_k docs ?tq) (pos_docs docs ?tq)).
              \<forall>d \<in> set (pos_docs docs ?tq) - set (take (balance_k docs ?tq) (pos_docs docs ?tq)).
                the (map_of docs d') \<ge> the (map_of docs d)"
    using take_top[OF pos_docs_desc[of docs ?tq]] by blast
  have tn: "\<forall>d' \<in> set (take (balance_k docs ?tq) (neg_docs docs ?tq)).
              \<forall>d \<in> set (neg_docs docs ?tq) - set (take (balance_k docs ?tq) (neg_docs docs ?tq)).
                the (map_of docs d') \<ge> the (map_of docs d)"
    using take_top[OF neg_docs_desc[of docs ?tq]] by blast
  show ?thesis
    by (intro conjI)
       (rule p, rule n, rule k, rule s, rule g', rule m, rule l, rule sorted_ids_desc,
        rule st, rule tp, rule tn)
qed

text \<open>
  The claim as written fails: with ranking \<open>{q1: {d1: 3, d3: 1}}\<close> and qrels
  \<open>{q1: {d1: 1}}\<close> the candidate d3 has no judgment and is in the balanced output.
\<close>

theorem C1_unknown_candidate_retained_counterexample:
  "map_of (dict_get [(''q1'', [(''d1'', 1::int)])] ''q1'' []) ''d3'' = None
   \<and> fst (get_balanced_ranking [(''q1'', [(''d1'', 3), (''d3'', 1)])] [(''q1'', [(''d1'', 1)])])
       = [(''q1'', [(''d1'', 3), (''d3'', 1)])]"
  by (simp add: get_balanced_ranking_def balance_step_def bal_defs)

text \<open>
  An instance in which the ranking is not in score order: d2 comes first among the
  candidates of grade 0 and has the lowest score of its class, so it is the one left out.
\<close>

theorem C1_balanced_output_classes_witness:
  "distinct (map fst [(''q1'', [(''d1'', 1::real), (''d2'', 2), (''d3'', 3), (''d4'', 4),
                                (''d5'', 5), (''d6'', 6)])])
   \<and> map_of [(''q1'', [(''d1'', 1::real), (''d2'', 2), (''d3'', 3), (''d4'', 4),
                        (''d5'', 5), (''d6'', 6)])] ''q1''
       = Some [(''d1'', 1), (''d2'', 2), (''d3'', 3), (''d4'', 4), (''d5'', 5), (''d6'', 6)]
   \<and> map_of (fst (get_balanced_ranking
                     [(''q1'', [(''d1'', 1), (''d2'', 2), (''d3'', 3), (''d4'', 4),
                                (''d5'', 5), (''d6'', 6)])]
                     [(''q1'', [(''d1'', 1), (''d2'', 0), (''d3'', 2), (''d4'', 0),
                                (''d6'', -1)])])) ''q1''
       = Some [(''d1'', 1), (''d3'', 3), (''d4'', 4), (''d5'', 5)]
   \<and> sorted_ids [(''d1'', 1), (''d2'', 2), (''d3'', 3), (''d4'', 4), (''d5'', 5), (''d6'', 6)]
       = [''d6'', ''d5'', ''d4'', ''d3'', ''d2'', ''d1'']
   \<and> pos_docs [(''d1'', 1), (''d2'', 2), (''d3'', 3), (''d4'', 4), (''d5'', 5), (''d6'', 6)]
        (dict_get [(''q1'', [(''d1'', 1), (''d2'', 0), (''d3'', 2), (''d4'', 0), (''d6'', -1)])]
           ''q1'' [])
       = [''d3'', ''d1'']
   \<and> neg_docs [(''d1'', 1), (''d2'', 2), (''d3'', 3), (''d4'', 4), (''d5'', 5), (''d6'', 6)]
        (dict_get [(''q1'', [(''d1'', 1), (''d2'', 0), (''d3'', 2), (''d4'', 0), (''d6'', -1)])]
           ''q1'' [])
       = [''d5'', ''d4'', ''d2'']
   \<and> set [(''d1'', 1::real), (''d3'', 3), (''d4'', 4), (''d5'', 5)]
       \<subseteq> set [(''d1'', 1), (''d2'', 2), (''d3'', 3), (''d4'', 4), (''d5'', 5), (''d6'', 6)]
   \<and> map_of (dict_get [(''q1'', [(''d1'', 1::int), (''d2'', 0), (''d3'', 2), (''d4'', 0),
                                  (''d6'', -1)])] ''q1'' []) ''d6''
       = Some (-1)
   \<and> ''d6'' \<notin> fst ` set [(''d1'', 1::real), (''d3'', 3), (''d4'', 4), (''d5'', 5)]"
proof -
  have a: "distinct (map fst [(''q1'', [(''d1'', 1::real), (''d2'', 2), (''d3'', 3), (''d4'', 4),
                                (''d5'', 5), (''d6'', 6)])])"
    by simp
  have b: "map_of [(''q1'', [(''d1'', 1::real), (''d2'', 2), (''d3'', 3), (''d4'', 4),
                        (''d5'', 5), (''d6'', 6)])] ''q1''
       = Some [(''d1'', 1), (''d2'', 2), (''d3'', 3), (''d4'', 4), (''d5'', 5), (''d6'', 6)]"
    by simp
  have si: "sorted_ids [(''d1'', 1), (''d2'', 2), (''d3'', 3), (''d4'', 4), (''d5'', 5), (''d6'', 6)]
       = [''d6'', ''d5'', ''d4'', ''d3'', ''d2'', ''d1'']"
    by (simp add: sorted_ids_def sorted_reverse_def)
  have tq: "dict_get [(''q1'', [(''d1'', 1), (''d2'', 0), (''d3'', 2), (''d4'', 0), (''d6'', -1)])]
              ''q1'' []
            = [(''d1'', 1::int), (''d2'', 0), (''d3'', 2), (''d4'', 0), (''d6'', -1)]"
    by (simp add: dict_get_def)
  have pd: "pos_docs [(''d1'', 1), (''d2'', 2), (''d3'', 3), (''d4'', 4), (''d5'', 5), (''d6'', 6)]
        (dict_get [(''q1'', [(''d1'', 1), (''d2'', 0), (''d3'', 2), (''d4'', 0), (''d6'', -1)])]
           ''q1'' [])
       = [''d3'', ''d1'']"
    unfolding pos_docs_def si tq by (simp add: dict_get_def)
  have nd: "neg_docs [(''d1'', 1), (''d2'', 2), (''d3'', 3), (''d4'', 4), (''d5'', 5), (''d6'', 6)]
        (dict_get [(''q1'', [(''d1'', 1), (''d2'', 0), (''d3'', 2), (''d4'', 0), (''d6'', -1)])]
           ''q1'' [])
       = [''d5'', ''d4'', ''d2'']"
    unfolding neg_docs_def si tq by (simp add: dict_get_def)
  have bd: "balanced_docs [(''d1'', 1), (''d2'', 2), (''d3'', 3), (''d4'', 4), (''d5'', 5), (''d6'', 6)]
        (dict_get [(''q1'', [(''d1'', 1), (''d2'', 0), (''d3'', 2), (''d4'', 0), (''d6'', -1)])]
           ''q1'' [])
       = [(''d1'', 1), (''d3'', 3), (''d4'', 4), (''d5'', 5)]"
    unfolding balanced_docs_def balanced_ids_def balance_k_def pd nd by simp
  have h: "map_of (fst (get_balanced_ranking
                     [(''q1'', [(''d1'', 1), (''d2'', 2), (''d3'', 3), (''d4'', 4),
                                (''d5'', 5), (''d6'', 6)])]
                     [(''q1'', [(''d1'', 1), (''d2'', 0), (''d3'', 2), (''d4'', 0),
                                (''d6'', -1)])])) ''q1''
       = Some [(''d1'', 1), (''d3'', 3), (''d4'', 4), (''d5'', 5)]"
    unfolding get_balanced_ranking_lookup[OF a b] bd balance_k_def pd nd by simp
  note t = C1_balanced_output_classes[OF a b h]
  have c: "set [(''d1'', 1::real), (''d3'', 3), (''d4'', 4), (''d5'', 5)]
             \<subseteq> set [(''d1'', 1), (''d2'', 2), (''d3'', 3), (''d4'', 4), (''d5'', 5), (''d6'', 6)]"
    using t by (elim conjE)
  have d: "\<forall>d g. map_of (dict_get [(''q1'', [(''d1'', 1::int), (''d2'', 0), (''d3'', 2), (''d4'', 0),
                                           (''d6'', -1)])] ''q1'' []) d
                  = Some g \<and> g < 0
               \<longrightarrow> d \<notin> fst ` set [(''d1'', 1::real), (''d3'', 3), (''d4'', 4), (''d5'', 5)]"
    using t by (elim conjE)
  have e: "map_of (dict_get [(''q1'', [(''d1'', 1::int), (''d2'', 0), (''d3'', 2), (''d4'', 0),
                                      (''d6'', -1)])] ''q1'' []) ''d6''
             = Some (-1)"
    by (simp add: dict_get_def)
  have f: "''d6'' \<notin> fst ` set [(''d1'', 1::real), (''d3'', 3), (''d4'', 4), (''d5'', 5)]"
    using d e by (elim allE[of _ "''d6''"] allE[of _ "-1"]) simp
  show ?thesis
    by (intro conjI) (rule a, rule b, rule h, rule si, rule pd, rule nd, rule c, rule e, rule f)
qed

text \<open>
  C8: balancing is idempotent. For a ranking (a dictionary of dictionaries), balancing the
  balanced result again with the same qrels returns it unchanged; and a ranking whose topics
  are all already balanced (both classes of the same non-zero size, no other candidate) is
  returned unchanged.
\<close>

theorem C8_balancing_idempotent:
  assumes "distinct (map fst ranking)"
    and "\<forall>(t, docs) \<in> set ranking. distinct (map fst docs)"
  shows "fst (get_balanced_ranking (fst (get_balanced_ranking ranking qrels)) qrels)
           = fst (get_balanced_ranking ranking qrels)
         \<and> ((\<forall>(t, docs) \<in> set ranking. already_balanced docs (dict_get qrels t []))
              \<longrightarrow> fst (get_balanced_ranking ranking qrels) = ranking)"
proof -
  have "fst (get_balanced_ranking (fst (get_balanced_ranking ranking qrels)) qrels)
           = fst (get_balanced_ranking ranking qrels)"
    using assms by (intro get_balanced_ranking_idem) auto
  moreover have "fst (get_balanced_ranking ranking qrels) = ranking"
    if "\<forall>(t, docs) \<in> set ranking. already_balanced docs (dict_get qrels t [])"
    using assms(1) that by (intro get_balanced_ranking_unchanged) auto
  ultimately show ?thesis by blast
qed

theorem C8_balancing_idempotent_witness:
  "distinct (map fst [(''q1'', [(''d1'', 3::real), (''d2'', 2), (''d3'', 1)]), (''q2'', [(''d1'', 1)])])
   \<and> distinct (map fst [(''d1'', 3::real), (''d2'', 2), (''d3'', 1)])
   \<and> distinct (map fst [(''d1'', 1::real)])
   \<and> fst (get_balanced_ranking [(''q1'', [(''d1'', 3), (''d2'', 2), (''d3'', 1)]), (''q2'', [(''d1'', 1)])]
                                 [(''q1'', [(''d1'', 1), (''d2'', 0)])])
       = [(''q1'', [(''d1'', 3), (''d2'', 2)])]
   \<and> already_balanced [(''d1'', 3), (''d2'', 2)] (dict_get [(''q1'', [(''d1'', 1), (''d2'', 0)])] ''q1'' [])
   \<and> fst (get_balanced_ranking [(''q1'', [(''d1'', 3), (''d2'', 2)])]
                                 [(''q1'', [(''d1'', 1), (''d2'', 0)])])
       = [(''q1'', [(''d1'', 3), (''d2'', 2)])]"
proof -
  have a: "distinct (map fst [(''q1'', [(''d1'', 3::real), (''d2'', 2), (''d3'', 1)]), (''q2'', [(''d1'', 1)])])"
    by simp
  have b: "distinct (map fst [(''d1'', 3::real), (''d2'', 2), (''d3'', 1)])"
    by simp
  have c: "distinct (map fst [(''d1'', 1::real)])"
    by simp
  have e: "fst (get_balanced_ranking [(''q1'', [(''d1'', 3), (''d2'', 2), (''d3'', 1)]), (''q2'', [(''d1'', 1)])]
                                 [(''q1'', [(''d1'', 1), (''d2'', 0)])])
       = [(''q1'', [(''d1'', 3), (''d2'', 2)])]"
    by (simp add: get_balanced_ranking_def balance_step_def bal_defs)
  have f: "already_balanced [(''d1'', 3), (''d2'', 2)] (dict_get [(''q1'', [(''d1'', 1), (''d2'', 0)])] ''q1'' [])"
    by (simp add: already_balanced_def bal_defs)
  have g: "fst (get_balanced_ranking [(''q1'', [(''d1'', 3), (''d2'', 2)])]
                                 [(''q1'', [(''d1'', 1), (''d2'', 0)])])
       = [(''q1'', [(''d1'', 3), (''d2'', 2)])]"
    using C8_balancing_idempotent
            [of "[(''q1'', [(''d1'', 3), (''d2'', 2), (''d3'', 1)]), (''q2'', [(''d1'', 1)])]"
                "[(''q1'', [(''d1'', 1), (''d2'', 0)])]"]
          C8_balancing_idempotent
            [of "[(''q1'', [(''d1'', 3), (''d2'', 2)])]" "[(''q1'', [(''d1'', 1), (''d2'', 0)])]"] f
    unfolding e by simp
  show ?thesis
    by (intro conjI) (rule a, rule b, rule c, rule e, rule f, rule g)
qed

text \<open>
  C2, as the code has it: for every query present in a balanced output the two classes have
  the same size k. In \<open>get_balanced_ranking\<close> the retained documents of grade at least 1 and
  the retained documents of grade 0 (a document without a judgment counting as grade 0, as
  in the lookup of the source) both number \<open>k = min (|pos|, |neg|)\<close>; in
  \<open>collect_filtered_eqrels\<close> each emitted query maps exactly k entities to grade 1 and
  exactly k entities to grade 0, and nothing else.
\<close>

theorem C2_balanced_class_counts:
  assumes "distinct (map fst ranking)"
    and "map_of ranking topic = Some docs"
    and "distinct (map fst docs)"
    and "map_of (fst (get_balanced_ranking ranking qrels)) topic = Some out"
    and "distinct (map fst eqrels_dict)"
    and "map_of eqrels_dict qid = Some ents"
    and "distinct (map fst ents)"
    and "map_of (collect_filtered_eqrels eqrels_dict) qid = Some balanced"
  shows "length (filter (\<lambda>(d, s). dict_get (dict_get qrels topic []) d 0 \<ge> 1) out)
           = min (length (pos_docs docs (dict_get qrels topic [])))
                 (length (neg_docs docs (dict_get qrels topic [])))
         \<and> length (filter (\<lambda>(d, s). dict_get (dict_get qrels topic []) d 0 = 0) out)
           = min (length (pos_docs docs (dict_get qrels topic [])))
                 (length (neg_docs docs (dict_get qrels topic [])))
         \<and> length (filter (\<lambda>(e, g). g = 1) balanced)
           = min (length (eqrels_pos ents)) (length (eqrels_neg ents))
         \<and> length (filter (\<lambda>(e, g). g = 0) balanced)
           = min (length (eqrels_pos ents)) (length (eqrels_neg ents))
         \<and> length balanced = 2 * min (length (eqrels_pos ents)) (length (eqrels_neg ents))"
proof -
  let ?tq = "dict_get qrels topic []"
  have out: "out = balanced_docs docs ?tq"
    using get_balanced_ranking_lookup[OF assms(1,2), of qrels] assms(4)
    by (simp split: if_splits)
  have bal: "balanced = eqrels_balanced ents"
    using collect_filtered_eqrels_lookup[OF assms(5,6)] assms(8)
    by (simp split: if_splits)
  have 1: "length (filter (\<lambda>(d, s). dict_get ?tq d 0 \<ge> 1) out) = balance_k docs ?tq"
    unfolding out by (rule balanced_docs_pos_count[OF assms(3)])
  have 2: "length (filter (\<lambda>(d, s). dict_get ?tq d 0 = 0) out) = balance_k docs ?tq"
    unfolding out by (rule balanced_docs_neg_count[OF assms(3)])
  have 3: "length (filter (\<lambda>(e, g). g = 1) balanced) = eqrels_k ents"
    unfolding bal by (rule eqrels_balanced_counts(1)[OF assms(7)])
  have 4: "length (filter (\<lambda>(e, g). g = 0) balanced) = eqrels_k ents"
    unfolding bal by (rule eqrels_balanced_counts(2)[OF assms(7)])
  have 5: "length balanced = 2 * eqrels_k ents"
    unfolding bal using eqrels_k_le[of ents] by (simp add: eqrels_balanced_shape[OF assms(7)])
  show ?thesis
    using 1 2 3 4 5 by (simp add: balance_k_def eqrels_k_def)
qed

text \<open>
  With ``judged negative'' read as having a judgment of grade 0, the claim fails: ranking
  \<open>{q1: {d1: 2, d2: 1.5, d5: 0.5}}\<close> and qrels \<open>{q1: {d1: 2, d2: 1}}\<close> give the output
  \<open>{q1: {d1: 2, d5: 0.5}}\<close>, one judged positive document and no judged negative one
  (d5 has no judgment).
\<close>

theorem C2_unjudged_counted_negative_counterexample:
  "fst (get_balanced_ranking [(''q1'', [(''d1'', 2), (''d2'', 3/2), (''d5'', 1/2)])]
                             [(''q1'', [(''d1'', 2), (''d2'', 1)])])
     = [(''q1'', [(''d1'', 2), (''d5'', 1/2)])]
   \<and> map_of (dict_get [(''q1'', [(''d1'', 2::int), (''d2'', 1)])] ''q1'' []) ''d1'' = Some 2
   \<and> map_of (dict_get [(''q1'', [(''d1'', 2::int), (''d2'', 1)])] ''q1'' []) ''d5'' = None"
  by (simp add: get_balanced_ranking_def balance_step_def bal_defs)

theorem C2_balanced_class_counts_witness:
  "distinct (map fst [(''q1'', [(''d1'', 3::real), (''d2'', 2), (''d3'', 1), (''d4'', 1/2)])])
   \<and> map_of [(''q1'', [(''d1'', 3::real), (''d2'', 2), (''d3'', 1), (''d4'', 1/2)])] ''q1''
       = Some [(''d1'', 3), (''d2'', 2), (''d3'', 1), (''d4'', 1/2)]
   \<and> distinct (map fst [(''d1'', 3::real), (''d2'', 2), (''d3'', 1), (''d4'', 1/2)])
   \<and> map_of (fst (get_balanced_ranking
                     [(''q1'', [(''d1'', 3), (''d2'', 2), (''d3'', 1), (''d4'', 1/2)])]
                     [(''q1'', [(''d1'', 1), (''d2'', 0), (''d3'', 0), (''d4'', 0)])])) ''q1''
       = Some [(''d1'', 3), (''d2'', 2)]
   \<and> distinct (map fst [(''q7'', [(''e1'', 2::int), (''e2'', 0), (''e3'', 1), (''e4'', 0), (''e5'', 3)])])
   \<and> map_of [(''q7'', [(''e1'', 2::int), (''e2'', 0), (''e3'', 1), (''e4'', 0), (''e5'', 3)])] ''q7''
       = Some [(''e1'', 2), (''e2'', 0), (''e3'', 1), (''e4'', 0), (''e5'', 3)]
   \<and> distinct (map fst [(''e1'', 2::int), (''e2'', 0), (''e3'', 1), (''e4'', 0), (''e5'', 3)])
   \<and> map_of (collect_filtered_eqrels
                [(''q7'', [(''e1'', 2), (''e2'', 0), (''e3'', 1), (''e4'', 0), (''e5'', 3)])]) ''q7''
       = Some [(''e1'', 1), (''e3'', 1), (''e2'', 0), (''e4'', 0)]
   \<and> length (filter (\<lambda>(d, s). dict_get (dict_get
                  [(''q1'', [(''d1'', 1::int), (''d2'', 0), (''d3'', 0), (''d4'', 0)])] ''q1'' []) d 0 \<ge> 1)
                [(''d1'', 3::real), (''d2'', 2)]) = 1
   \<and> length (filter (\<lambda>(d, s). dict_get (dict_get
                  [(''q1'', [(''d1'', 1::int), (''d2'', 0), (''d3'', 0), (''d4'', 0)])] ''q1'' []) d 0 = 0)
                [(''d1'', 3::real), (''d2'', 2)]) = 1
   \<and> length (filter (\<lambda>(e, g). g = 1) [(''e1'', 1::int), (''e3'', 1), (''e2'', 0), (''e4'', 0)]) = 2
   \<and> length (filter (\<lambda>(e, g). g = 0) [(''e1'', 1::int), (''e3'', 1), (''e2'', 0), (''e4'', 0)]) = 2"
proof -
  have h1: "distinct (map fst [(''q1'', [(''d1'', 3::real), (''d2'', 2), (''d3'', 1), (''d4'', 1/2)])])"
    by simp
  have h2: "map_of [(''q1'', [(''d1'', 3::real), (''d2'', 2), (''d3'', 1), (''d4'', 1/2)])] ''q1''
       = Some [(''d1'', 3), (''d2'', 2), (''d3'', 1), (''d4'', 1/2)]"
    by simp
  have h3: "distinct (map fst [(''d1'', 3::real), (''d2'', 2), (''d3'', 1), (''d4'', 1/2)])"
    by simp
  have h4: "map_of (fst (get_balanced_ranking
                     [(''q1'', [(''d1'', 3), (''d2'', 2), (''d3'', 1), (''d4'', 1/2)])]
                     [(''q1'', [(''d1'', 1), (''d2'', 0), (''d3'', 0), (''d4'', 0)])])) ''q1''
       = Some [(''d1'', 3), (''d2'', 2)]"
    by (simp add: get_balanced_ranking_def balance_step_def bal_defs)
  have h5: "distinct (map fst [(''q7'', [(''e1'', 2::int), (''e2'', 0), (''e3'', 1), (''e4'', 0), (''e5'', 3)])])"
    by simp
  have h6: "map_of [(''q7'', [(''e1'', 2::int), (''e2'', 0), (''e3'', 1), (''e4'', 0), (''e5'', 3)])] ''q7''
       = Some [(''e1'', 2), (''e2'', 0), (''e3'', 1), (''e4'', 0), (''e5'', 3)]"
    by simp
  have h7: "distinct (map fst [(''e1'', 2::int), (''e2'', 0), (''e3'', 1), (''e4'', 0), (''e5'', 3)])"
    by simp
  have h8: "map_of (collect_filtered_eqrels
                [(''q7'', [(''e1'', 2), (''e2'', 0), (''e3'', 1), (''e4'', 0), (''e5'', 3)])]) ''q7''
       = Some [(''e1'', 1), (''e3'', 1), (''e2'', 0), (''e4'', 0)]"
    by (simp add: eq_defs)
  have k1: "min (length (pos_docs [(''d1'', 3), (''d2'', 2), (''d3'', 1), (''d4'', 1/2)]
                   (dict_get [(''q1'', [(''d1'', 1), (''d2'', 0), (''d3'', 0), (''d4'', 0)])] ''q1'' [])))
                (length (neg_docs [(''d1'', 3), (''d2'', 2), (''d3'', 1), (''d4'', 1/2)]
                   (dict_get [(''q1'', [(''d1'', 1), (''d2'', 0), (''d3'', 0), (''d4'', 0)])] ''q1'' []))) = 1"
    by (simp add: bal_defs)
  have k2: "min (length (eqrels_pos [(''e1'', 2), (''e2'', 0), (''e3'', 1), (''e4'', 0), (''e5'', 3)]))
                (length (eqrels_neg [(''e1'', 2), (''e2'', 0), (''e3'', 1), (''e4'', 0), (''e5'', 3)])) = 2"
    by (simp add: eq_defs)
  note t = C2_balanced_class_counts[OF h1 h2 h3 h4 h5 h6 h7 h8, unfolded k1 k2]
  have c1: "length (filter (\<lambda>(d, s). dict_get (dict_get
                  [(''q1'', [(''d1'', 1::int), (''d2'', 0), (''d3'', 0), (''d4'', 0)])] ''q1'' []) d 0 \<ge> 1)
                [(''d1'', 3::real), (''d2'', 2)]) = 1"
    using t by (elim conjE)
  have c2: "length (filter (\<lambda>(d, s). dict_get (dict_get
                  [(''q1'', [(''d1'', 1::int), (''d2'', 0), (''d3'', 0), (''d4'', 0)])] ''q1'' []) d 0 = 0)
                [(''d1'', 3::real), (''d2'', 2)]) = 1"
    using t by (elim conjE)
  have c3: "length (filter (\<lambda>(e, g). g = 1) [(''e1'', 1::int), (''e3'', 1), (''e2'', 0), (''e4'', 0)]) = 2"
    using t by (elim conjE)
  have c4: "length (filter (\<lambda>(e, g). g = 0) [(''e1'', 1::int), (''e3'', 1), (''e2'', 0), (''e4'', 0)]) = 2"
    using t by (elim conjE)
  show ?thesis
    by (intro conjI)
       (rule h1, rule h2, rule h3, rule h4, rule h5, rule h6, rule h7, rule h8,
        rule c1, rule c2, rule c3, rule c4)
qed

section \<open>Claims on the entity qrels balancer\<close>

text \<open>
  C10: every grade in the output of \<open>collect_filtered_eqrels\<close> is 1 or 0. An entity of the
  input that is kept gets the grade 1 when its input grade was at least 1 (also when it was
  greater than 1) and the grade 0 when its input grade was 0; the input grades are not
  carried over.
\<close>

theorem C10_eqrels_grades_binary:
  assumes "distinct (map fst eqrels_dict)"
    and "map_of eqrels_dict qid = Some ents"
    and "distinct (map fst ents)"
    and "map_of (collect_filtered_eqrels eqrels_dict) qid = Some balanced"
  shows "(\<forall>(q, b) \<in> set (collect_filtered_eqrels eqrels_dict). \<forall>(e, g) \<in> set b. g = 1 \<or> g = 0)
         \<and> (\<forall>(e, g) \<in> set ents. e \<in> fst ` set balanced \<longrightarrow>
               (g \<ge> 1 \<longrightarrow> map_of balanced e = Some 1)
               \<and> (g = 0 \<longrightarrow> map_of balanced e = Some 0)
               \<and> (g \<ge> 1 \<or> g = 0))"
proof -
  have bal: "balanced = eqrels_balanced ents"
    using collect_filtered_eqrels_lookup[OF assms(1,2)] assms(4)
    by (simp split: if_splits)
  have 1: "\<forall>(q, b) \<in> set (collect_filtered_eqrels eqrels_dict). \<forall>(e, g) \<in> set b. g = 1 \<or> g = 0"
    using collect_filtered_eqrels_grades by blast
  have 2: "\<forall>(e, g) \<in> set ents. e \<in> fst ` set balanced \<longrightarrow>
               (g \<ge> 1 \<longrightarrow> map_of balanced e = Some 1)
               \<and> (g = 0 \<longrightarrow> map_of balanced e = Some 0)
               \<and> (g \<ge> 1 \<or> g = 0)"
    unfolding bal using eqrels_balanced_regraded[OF assms(3)] by blast
  show ?thesis using 1 2 by (rule conjI)
qed

theorem C10_eqrels_grades_binary_witness:
  "distinct (map fst [(''q7'', [(''e1'', 2::int), (''e2'', 0), (''e3'', 1), (''e4'', 0), (''e5'', 3)])])
   \<and> map_of [(''q7'', [(''e1'', 2::int), (''e2'', 0), (''e3'', 1), (''e4'', 0), (''e5'', 3)])] ''q7''
       = Some [(''e1'', 2), (''e2'', 0), (''e3'', 1), (''e4'', 0), (''e5'', 3)]
   \<and> distinct (map fst [(''e1'', 2::int), (''e2'', 0), (''e3'', 1), (''e4'', 0), (''e5'', 3)])
   \<and> map_of (collect_filtered_eqrels
                [(''q7'', [(''e1'', 2), (''e2'', 0), (''e3'', 1), (''e4'', 0), (''e5'', 3)])]) ''q7''
       = Some [(''e1'', 1), (''e3'', 1), (''e2'', 0), (''e4'', 0)]
   \<and> (''e1'', 2) \<in> set [(''e1'', 2::int), (''e2'', 0), (''e3'', 1), (''e4'', 0), (''e5'', 3)]
   \<and> ''e1'' \<in> fst ` set [(''e1'', 1::int), (''e3'', 1), (''e2'', 0), (''e4'', 0)]
   \<and> map_of [(''e1'', 1::int), (''e3'', 1), (''e2'', 0), (''e4'', 0)] ''e1'' = Some 1"
proof -
  have a: "distinct (map fst [(''q7'', [(''e1'', 2::int), (''e2'', 0), (''e3'', 1), (''e4'', 0), (''e5'', 3)])])"
    by simp
  have b: "map_of [(''q7'', [(''e1'', 2::int), (''e2'', 0), (''e3'', 1), (''e4'', 0), (''e5'', 3)])] ''q7''
       = Some [(''e1'', 2), (''e2'', 0), (''e3'', 1), (''e4'', 0), (''e5'', 3)]"
    by simp
  have c: "distinct (map fst [(''e1'', 2::int), (''e2'', 0), (''e3'', 1), (''e4'', 0), (''e5'', 3)])"
    by simp
  have d: "map_of (collect_filtered_eqrels
                [(''q7'', [(''e1'', 2), (''e2'', 0), (''e3'', 1), (''e4'', 0), (''e5'', 3)])]) ''q7''
       = Some [(''e1'', 1), (''e3'', 1), (''e2'', 0), (''e4'', 0)]"
    by (simp add: eq_defs)
  have e: "(''e1'', 2) \<in> set [(''e1'', 2::int), (''e2'', 0), (''e3'', 1), (''e4'', 0), (''e5'', 3)]"
    by simp
  have f: "''e1'' \<in> fst ` set [(''e1'', 1::int), (''e3'', 1), (''e2'', 0), (''e4'', 0)]"
    by simp
  have t: "\<forall>(e, g) \<in> set [(''e1'', 2::int), (''e2'', 0), (''e3'', 1), (''e4'', 0), (''e5'', 3)].
             e \<in> fst ` set [(''e1'', 1::int), (''e3'', 1), (''e2'', 0), (''e4'', 0)] \<longrightarrow>
               (g \<ge> 1 \<longrightarrow> map_of [(''e1'', 1::int), (''e3'', 1), (''e2'', 0), (''e4'', 0)] e = Some 1)
               \<and> (g = 0 \<longrightarrow> map_of [(''e1'', 1::int), (''e3'', 1), (''e2'', 0), (''e4'', 0)] e = Some 0)
               \<and> (g \<ge> 1 \<or> g = 0)"
    using C10_eqrels_grades_binary[OF a b c d] by (rule conjunct2)
  have g: "map_of [(''e1'', 1::int), (''e3'', 1), (''e2'', 0), (''e4'', 0)] ''e1'' = Some 1"
    using bspec[OF t e] f by simp
  show ?thesis
    by (intro conjI) (rule a, rule b, rule c, rule d, rule e, rule f, rule g)
qed

section \<open>Claims on the entity classifier\<close>

lemma shared_entity_removal_valid_grades:
  assumes "get_classified_entities qrels links = Inr (result, lg)"
    and "distinct (map fst qrels)"
    and "map_of qrels topic = Some doc_rels"
    and "\<forall>(doc_id, rel) \<in> set doc_rels. rel \<ge> 0"
  shows "\<exists>c. map_of result topic = Some c
           \<and> shared c = pos_doc_entities links doc_rels \<inter> zero_doc_entities links doc_rels
           \<and> positive c \<inter> negative c = {}
           \<and> positive c \<inter> shared c = {}
           \<and> negative c \<inter> shared c = {}
           \<and> positive c \<union> negative c \<union> shared c
               = pos_doc_entities links doc_rels \<union> zero_doc_entities links doc_rels"
proof -
  have z: "nonpos_doc_entities links doc_rels = zero_doc_entities links doc_rels"
    using assms(4) by (rule nonpos_zero_doc_entities)
  have "map_of result topic = Some (classes_of links doc_rels)"
    using fold_classify_topic_result[of links qrels "([], [])" result lg topic] assms(1,2,3)
    by (simp add: get_classified_entities_def)
  moreover have "shared (classes_of links doc_rels)
                   = pos_doc_entities links doc_rels \<inter> zero_doc_entities links doc_rels"
    by (simp add: classes_of_def z)
  moreover have "positive (classes_of links doc_rels) \<inter> negative (classes_of links doc_rels) = {}"
    by (auto simp: classes_of_def)
  moreover have "positive (classes_of links doc_rels) \<inter> shared (classes_of links doc_rels) = {}"
    by (auto simp: classes_of_def)
  moreover have "negative (classes_of links doc_rels) \<inter> shared (classes_of links doc_rels) = {}"
    by (auto simp: classes_of_def)
  moreover have "positive (classes_of links doc_rels) \<union> negative (classes_of links doc_rels)
                   \<union> shared (classes_of links doc_rels)
                 = pos_doc_entities links doc_rels \<union> zero_doc_entities links doc_rels"
    by (auto simp: classes_of_def z)
  ultimately show ?thesis by blast
qed

text \<open>
  C4: the three sets returned for a topic are the shared-entity split of the positive
  documents (grade at least 1) and the negative documents (grade 0) only when no judgment of
  the topic has a negative grade (\<open>shared_entity_removal_valid_grades\<close>). A document with a
  negative grade is taken by the branch \<open>rel < 1\<close> and its entities are added to the
  negative accumulator, where the source means to skip it with a warning. For qrels
  \<open>{q1: {d1: 1, d3: -1}}\<close> and links \<open>{d1: {e1}, d3: {e1}}\<close> the intersection of the
  positive and the negative entity union is empty and their union is \<open>{e1}\<close>, so the entry
  should be positive \<open>{e1}\<close> with nothing shared; the source returns e1 as shared and an
  empty positive class.
\<close>

theorem C4_negative_grade_makes_entity_shared:
  "get_classified_entities [(''q1'', [(''d1'', 1), (''d3'', -1)])]
       [''d1'' \<mapsto> {''e1''}, ''d3'' \<mapsto> {''e1''}]
     = Inr ([(''q1'', \<lparr> shared = {''e1''}, positive = {}, negative = {} \<rparr>)], [])
   \<and> pos_doc_entities [''d1'' \<mapsto> {''e1''}, ''d3'' \<mapsto> {''e1''}] [(''d1'', 1), (''d3'', -1)]
       \<inter> zero_doc_entities [''d1'' \<mapsto> {''e1''}, ''d3'' \<mapsto> {''e1''}] [(''d1'', 1), (''d3'', -1)]
       = {}
   \<and> pos_doc_entities [''d1'' \<mapsto> {''e1''}, ''d3'' \<mapsto> {''e1''}] [(''d1'', 1), (''d3'', -1)]
       \<union> zero_doc_entities [''d1'' \<mapsto> {''e1''}, ''d3'' \<mapsto> {''e1''}] [(''d1'', 1), (''d3'', -1)]
       = {''e1''}"
  by (simp add: cls_defs Let_def pos_doc_entities_def zero_doc_entities_def linked_ents_of_def)

text \<open>
  C5: a judgment with a negative grade is not skipped. The test \<open>rel < 1\<close> of the second
  branch holds for every integer grade that is not at least 1, so the branch that logs the
  warning is never taken: for qrels \<open>{q1: {d1: -1}}\<close> and links \<open>{d1: {e1}}\<close> the entity e1
  is classified negative and the log stays empty.
\<close>

theorem C5_negative_grade_classified_negative:
  "get_classified_entities [(''q1'', [(''d1'', -1)])] [''d1'' \<mapsto> {''e1''}]
     = Inr ([(''q1'', \<lparr> shared = {}, positive = {}, negative = {''e1''} \<rparr>)], [])"
  by (simp add: cls_defs)

text \<open>
  C9: \<open>get_classified_entities\<close> returns a result exactly when every document judged in the
  qrels has an entry in the link map; when some judged document has none, it raises a
  TypeError (from \<open>set.update(None)\<close>) instead of skipping the document.
\<close>

theorem C9_classification_total_iff_linked:
  "((\<exists>r. get_classified_entities qrels links = Inr r)
      \<longleftrightarrow> (\<forall>(topic, doc_rels) \<in> set qrels. \<forall>(doc_id, rel) \<in> set doc_rels. doc_id \<in> dom links))
   \<and> ((\<exists>(topic, doc_rels) \<in> set qrels. \<exists>(doc_id, rel) \<in> set doc_rels. doc_id \<notin> dom links)
        \<longrightarrow> get_classified_entities qrels links = Inl TypeError)"
proof -
  let ?ok = "list_all (\<lambda>(topic, doc_rels). all_linked links doc_rels) qrels"
  have ok: "?ok \<Longrightarrow> \<exists>r. get_classified_entities qrels links = Inr r"
    using fold_classify_topic_total[of links qrels "([], [])"]
    by (auto simp: get_classified_entities_def)
  have bad: "\<not> ?ok \<Longrightarrow> get_classified_entities qrels links = Inl TypeError"
  proof -
    assume n: "\<not> ?ok"
    show ?thesis
    proof (cases "get_classified_entities qrels links")
      case (Inl e)
      then show ?thesis
        using fold_classify_topic_error[of links qrels "([], [])" e]
        by (simp add: get_classified_entities_def)
    next
      case (Inr r)
      then have "?ok"
        using fold_classify_topic_success[of links qrels "([], [])" r]
        by (simp add: get_classified_entities_def)
      then show ?thesis using n by simp
    qed
  qed
  have iff: "(\<exists>r. get_classified_entities qrels links = Inr r) \<longleftrightarrow> ?ok"
    using ok bad by (cases "?ok") auto
  have ex: "(\<exists>(topic, doc_rels) \<in> set qrels. \<exists>(doc_id, rel) \<in> set doc_rels. doc_id \<notin> dom links)
              \<longleftrightarrow> \<not> ?ok"
    unfolding all_judged_linked_iff by (simp add: case_prod_beta)
  show ?thesis
    unfolding ex iff[unfolded all_judged_linked_iff] all_judged_linked_iff[symmetric]
    using bad by simp
qed

theorem C9_classification_total_iff_linked_witness:
  "(''q1'', [(''d1'', 1), (''d9'', 0)]) \<in> set [(''q1'', [(''d1'', 1::int), (''d9'', 0)])]
   \<and> (''d9'', 0) \<in> set [(''d1'', 1::int), (''d9'', 0)]
   \<and> ''d9'' \<notin> dom [''d1'' \<mapsto> {''e1''}]
   \<and> get_classified_entities [(''q1'', [(''d1'', 1), (''d9'', 0)])] [''d1'' \<mapsto> {''e1''}]
       = Inl TypeError
   \<and> get_classified_entities [(''q1'', [(''d1'', 1)])] [''d1'' \<mapsto> {''e1''}]
       = Inr ([(''q1'', \<lparr> shared = {}, positive = {''e1''}, negative = {} \<rparr>)], [])"
proof -
  have a: "(''q1'', [(''d1'', 1), (''d9'', 0)]) \<in> set [(''q1'', [(''d1'', 1::int), (''d9'', 0)])]"
    by simp
  have b: "(''d9'', 0) \<in> set [(''d1'', 1::int), (''d9'', 0)]"
    by simp
  have c: "''d9'' \<notin> dom [''d1'' \<mapsto> {''e1''}]"
    by simp
  have "\<exists>(topic, doc_rels) \<in> set [(''q1'', [(''d1'', 1::int), (''d9'', 0)])].
          \<exists>(doc_id, rel) \<in> set doc_rels. doc_id \<notin> dom [''d1'' \<mapsto> {''e1''}]"
    by simp
  then have d: "get_classified_entities [(''q1'', [(''d1'', 1), (''d9'', 0)])] [''d1'' \<mapsto> {''e1''}]
           = Inl TypeError"
    using C9_classification_total_iff_linked
            [of "[(''q1'', [(''d1'', 1), (''d9'', 0)])]" "[''d1'' \<mapsto> {''e1''}]"]
    by blast
  have e: "get_classified_entities [(''q1'', [(''d1'', 1)])] [''d1'' \<mapsto> {''e1''}]
       = Inr ([(''q1'', \<lparr> shared = {}, positive = {''e1''}, negative = {} \<rparr>)], [])"
    by (simp add: cls_defs Let_def)
  show ?thesis
    by (intro conjI) (rule a, rule b, rule c, rule d, rule e)
qed

section \<open>Claims on the overlap filter and its statistics\<close>

text \<open>
  C3: on a ranking file whose lines all have the fields the source reads,
  \<open>filter_ranking\<close> scans every line and writes, group by group (the groups of \<open>groupby\<close>
  partition the file in order, each holding the lines of one query identifier), the lines
  of the documents that are retained. A document is retained iff the intersection of the
  query's scored entities with the document's linked entities is not empty; the retained
  lines keep their order, are ranked 1, 2, ... within the group, and carry the fields 1, 2
  and 4 of the input line (the score is field 4) unchanged. For a query that is not a key
  of the entity qrels the scored set is empty and nothing is written.
\<close>

theorem C3_overlap_filter:
  assumes "list_all well_formed_line f_initial"
  shows "filter_ranking ent_qrels f_initial doc_ents
           = Inr (length f_initial,
                  concat (map (filtered_group ent_qrels doc_ents) (groupby line_qid f_initial)))
         \<and> concat (map snd (groupby line_qid f_initial)) = f_initial
         \<and> (\<forall>(qid, group_lines) \<in> set (groupby line_qid f_initial).
               (\<forall>line \<in> set group_lines. line_qid line = qid)
               \<and> filtered_group ent_qrels doc_ents (qid, group_lines)
                   = map (\<lambda>(rank, line). out_line qid (line_field line 1) (line_field line 2)
                                            rank (line_field line 4))
                       (zip [1 ..< 1 + length
                               (filter (\<lambda>line. scored_ents_of ent_qrels qid
                                           \<inter> linked_ents_of doc_ents (line_field line 2) \<noteq> {})
                                  group_lines)]
                            (filter (\<lambda>line. scored_ents_of ent_qrels qid
                                        \<inter> linked_ents_of doc_ents (line_field line 2) \<noteq> {})
                               group_lines))
               \<and> (qid \<notin> fst ` set ent_qrels
                    \<longrightarrow> scored_ents_of ent_qrels qid = {}
                        \<and> filtered_group ent_qrels doc_ents (qid, group_lines) = []))"
proof -
  have 1: "filter_ranking ent_qrels f_initial doc_ents
           = Inr (length f_initial,
                  concat (map (filtered_group ent_qrels doc_ents) (groupby line_qid f_initial)))"
    by (rule filter_ranking_wf[OF assms])
  have 2: "concat (map snd (groupby line_qid f_initial)) = f_initial"
    by (rule concat_groupby)
  have 3: "\<forall>line \<in> set g. line_qid line = qid"
    if "(qid, g) \<in> set (groupby line_qid f_initial)" for qid g
    using groupby_groups[OF that] by blast
  have 4: "filtered_group ent_qrels doc_ents (qid, g)
             = map (\<lambda>(rank, line). out_line qid (line_field line 1) (line_field line 2)
                                      rank (line_field line 4))
                 (zip [1 ..< 1 + length
                         (filter (\<lambda>line. scored_ents_of ent_qrels qid
                                     \<inter> linked_ents_of doc_ents (line_field line 2) \<noteq> {}) g)]
                      (filter (\<lambda>line. scored_ents_of ent_qrels qid
                                  \<inter> linked_ents_of doc_ents (line_field line 2) \<noteq> {}) g))"
    for qid g
    unfolding filtered_group_def prod.case enumerate_eq_zip retained_def by simp
  have 5: "scored_ents_of ent_qrels qid = {} \<and> filtered_group ent_qrels doc_ents (qid, g) = []"
    if "qid \<notin> fst ` set ent_qrels" for qid g
    using that filtered_group_absent[OF that]
    by (simp add: scored_ents_of_def map_of_eq_None_iff[symmetric])
  have 6: "\<forall>(qid, group_lines) \<in> set (groupby line_qid f_initial).
               (\<forall>line \<in> set group_lines. line_qid line = qid)
               \<and> filtered_group ent_qrels doc_ents (qid, group_lines)
                   = map (\<lambda>(rank, line). out_line qid (line_field line 1) (line_field line 2)
                                            rank (line_field line 4))
                       (zip [1 ..< 1 + length
                               (filter (\<lambda>line. scored_ents_of ent_qrels qid
                                           \<inter> linked_ents_of doc_ents (line_field line 2) \<noteq> {})
                                  group_lines)]
                            (filter (\<lambda>line. scored_ents_of ent_qrels qid
                                        \<inter> linked_ents_of doc_ents (line_field line 2) \<noteq> {})
                               group_lines))
               \<and> (qid \<notin> fst ` set ent_qrels
                    \<longrightarrow> scored_ents_of ent_qrels qid = {}
                        \<and> filtered_group ent_qrels doc_ents (qid, group_lines) = [])"
  proof
    fix item
    assume mem: "item \<in> set (groupby line_qid f_initial)"
    obtain qid g where item: "item = (qid, g)" by (cases item)
    have a: "\<forall>line \<in> set g. line_qid line = qid"
      using mem unfolding item by (rule 3)
    have c: "qid \<notin> fst ` set ent_qrels
               \<longrightarrow> scored_ents_of ent_qrels qid = {}
                   \<and> filtered_group ent_qrels doc_ents (qid, g) = []"
      using 5[of qid g] by (rule impI)
    show "case item of (qid, group_lines) \<Rightarrow>
               (\<forall>line \<in> set group_lines. line_qid line = qid)
               \<and> filtered_group ent_qrels doc_ents (qid, group_lines)
                   = map (\<lambda>(rank, line). out_line qid (line_field line 1) (line_field line 2)
                                            rank (line_field line 4))
                       (zip [1 ..< 1 + length
                               (filter (\<lambda>line. scored_ents_of ent_qrels qid
                                           \<inter> linked_ents_of doc_ents (line_field line 2) \<noteq> {})
                                  group_lines)]
                            (filter (\<lambda>line. scored_ents_of ent_qrels qid
                                        \<inter> linked_ents_of doc_ents (line_field line 2) \<noteq> {})
                               group_lines))
               \<and> (qid \<notin> fst ` set ent_qrels
                    \<longrightarrow> scored_ents_of ent_qrels qid = {}
                        \<and> filtered_group ent_qrels doc_ents (qid, group_lines) = [])"
      unfolding item prod.case
      by (intro conjI) (rule a, rule 4, rule c)
  qed
  show ?thesis
    by (intro conjI) (rule 1, rule 2, rule 6)
qed

theorem C3_overlap_filter_witness:
  "list_all well_formed_line
     [''q1 Q0 d1 1 3.0 bm25'', ''q1 Q0 d2 2 2.0 bm25'', ''q1 Q0 d3 3 1.0 bm25'',
      ''q2 Q0 d1 1 0.5 bm25'']
   \<and> filter_ranking [(''q1'', [(''e5'', 1)])]
        [''q1 Q0 d1 1 3.0 bm25'', ''q1 Q0 d2 2 2.0 bm25'', ''q1 Q0 d3 3 1.0 bm25'',
         ''q2 Q0 d1 1 0.5 bm25'']
        [''d1'' \<mapsto> {''e5''}, ''d2'' \<mapsto> {''e9''}, ''d3'' \<mapsto> {''e5'', ''e7''}]
       = Inr (4, [''q1 Q0 d1 1 3.0 Entity-Filtered'' @ [CHR 0x0A],
                  ''q1 Q0 d3 2 1.0 Entity-Filtered'' @ [CHR 0x0A]])"
proof -
  have wf: "list_all well_formed_line
     [''q1 Q0 d1 1 3.0 bm25'', ''q1 Q0 d2 2 2.0 bm25'', ''q1 Q0 d3 3 1.0 bm25'',
      ''q2 Q0 d1 1 0.5 bm25'']"
    by (simp add: well_formed_line_def)
  have g: "groupby line_qid
     [''q1 Q0 d1 1 3.0 bm25'', ''q1 Q0 d2 2 2.0 bm25'', ''q1 Q0 d3 3 1.0 bm25'',
      ''q2 Q0 d1 1 0.5 bm25'']
     = [(''q1'', [''q1 Q0 d1 1 3.0 bm25'', ''q1 Q0 d2 2 2.0 bm25'', ''q1 Q0 d3 3 1.0 bm25'']),
        (''q2'', [''q2 Q0 d1 1 0.5 bm25''])]"
    by (simp add: line_qid_def)
  have o1: "filtered_group [(''q1'', [(''e5'', 1)])]
              [''d1'' \<mapsto> {''e5''}, ''d2'' \<mapsto> {''e9''}, ''d3'' \<mapsto> {''e5'', ''e7''}]
              (''q1'', [''q1 Q0 d1 1 3.0 bm25'', ''q1 Q0 d2 2 2.0 bm25'', ''q1 Q0 d3 3 1.0 bm25''])
            = [''q1 Q0 d1 1 3.0 Entity-Filtered'' @ [CHR 0x0A],
               ''q1 Q0 d3 2 1.0 Entity-Filtered'' @ [CHR 0x0A]]"
    by (simp add: fr_defs upt_rec)
  have o2: "filtered_group [(''q1'', [(''e5'', 1)])]
              [''d1'' \<mapsto> {''e5''}, ''d2'' \<mapsto> {''e9''}, ''d3'' \<mapsto> {''e5'', ''e7''}]
              (''q2'', [''q2 Q0 d1 1 0.5 bm25''])
            = []"
    by (simp add: fr_defs)
  have r: "filter_ranking [(''q1'', [(''e5'', 1)])]
        [''q1 Q0 d1 1 3.0 bm25'', ''q1 Q0 d2 2 2.0 bm25'', ''q1 Q0 d3 3 1.0 bm25'',
         ''q2 Q0 d1 1 0.5 bm25'']
        [''d1'' \<mapsto> {''e5''}, ''d2'' \<mapsto> {''e9''}, ''d3'' \<mapsto> {''e5'', ''e7''}]
       = Inr (4, [''q1 Q0 d1 1 3.0 Entity-Filtered'' @ [CHR 0x0A],
                  ''q1 Q0 d3 2 1.0 Entity-Filtered'' @ [CHR 0x0A]])"
    using conjunct1[OF C3_overlap_filter[OF wf, of "[(''q1'', [(''e5'', 1)])]"
            "[''d1'' \<mapsto> {''e5''}, ''d2'' \<mapsto> {''e9''}, ''d3'' \<mapsto> {''e5'', ''e7''}]"]]
    unfolding g by (simp add: o1 o2)
  show ?thesis
    by (intro conjI) (rule wf, rule r)
qed




end
